theory Spec2Isabelle
  imports Complex_Main
begin

section \<open>Game of life with vegetation: the simulation core of GameOfLifePythonMultiproc.py\<close>

text \<open>
  The script is Python 2. Its integers are unbounded and are modelled as \<open>int\<close>. A list
  index that is out of range raises \<open>IndexError\<close>, a division by zero raises
  \<open>ZeroDivisionError\<close>, an integer too large for a float raises \<open>OverflowError\<close>: these
  are values of the result type here.

  Its floats are doubles. The model computes a float operation in \<open>real\<close> where the
  double operation is exact, or where its rounding cannot change what follows, and
  nowhere else: a run that reaches a float operation outside this range, or a queue that
  may be too large for the processes to be joined, ends the model with \<open>NotModelled\<close>.
  \<open>NotModelled\<close> is not an exception of the script; it says that the script goes on in a
  way this theory does not follow, and no theorem below is about such a run. A float that
  the model returns (a value of \<open>rand1\<close>, an average, a percentage) is the exact quotient;
  the script holds the double nearest to it.
\<close>

subsection \<open>Errors and list access\<close>

datatype py_error = IndexError | ZeroDivisionError | OverflowError | NotModelled

definition bind_err :: "py_error + 'a \<Rightarrow> ('a \<Rightarrow> py_error + 'b) \<Rightarrow> py_error + 'b" where
  "bind_err m f = (case m of Inl e \<Rightarrow> Inl e | Inr x \<Rightarrow> f x)"

text \<open>\<open>xs[i]\<close>: a negative index counts from the end of the list.\<close>

definition py_index :: "'a list \<Rightarrow> int \<Rightarrow> py_error + nat" where
  "py_index xs i =
     (let n = int (length xs); k = (if i < 0 then n + i else i)
      in if 0 \<le> k \<and> k < n then Inr (nat k) else Inl IndexError)"

definition py_get :: "'a list \<Rightarrow> int \<Rightarrow> py_error + 'a" where
  "py_get xs i = bind_err (py_index xs i) (\<lambda>k. Inr (xs ! k))"

definition py_set :: "'a list \<Rightarrow> int \<Rightarrow> 'a \<Rightarrow> py_error + 'a list" where
  "py_set xs i v = bind_err (py_index xs i) (\<lambda>k. Inr (xs[k := v]))"

text \<open>\<open>a // b\<close> on integers and \<open>x / y\<close> on floats raise when the divisor is zero.\<close>

definition py_floordiv :: "int \<Rightarrow> int \<Rightarrow> py_error + int" where
  "py_floordiv a b = (if b = 0 then Inl ZeroDivisionError else Inr (a div b))"

definition py_truediv :: "real \<Rightarrow> real \<Rightarrow> py_error + real" where
  "py_truediv x y = (if y = 0 then Inl ZeroDivisionError else Inr (x / y))"

text \<open>\<open>g[i][j]\<close> and \<open>g[i][j] = v\<close> on a list of rows.\<close>

definition get2 :: "int list list \<Rightarrow> int \<Rightarrow> int \<Rightarrow> py_error + int" where
  "get2 g i j = bind_err (py_get g i) (\<lambda>row. py_get row j)"

definition set2 :: "int list list \<Rightarrow> int \<Rightarrow> int \<Rightarrow> int \<Rightarrow> py_error + int list list" where
  "set2 g i j v =
     bind_err (py_index g i) (\<lambda>k.
     bind_err (py_set (g ! k) j v) (\<lambda>row. Inr (g[k := row])))"

text \<open>\<open>xrange(a, b)\<close> and a \<open>for\<close> loop over it whose body may raise.\<close>

definition xrange :: "int \<Rightarrow> int \<Rightarrow> int list" where
  "xrange a b = [a..b - 1]"

fun for_each :: "'i list \<Rightarrow> ('i \<Rightarrow> 's \<Rightarrow> py_error + 's) \<Rightarrow> 's \<Rightarrow> py_error + 's" where
  "for_each [] body s = Inr s"
| "for_each (x # xs) body s =
     (case body x s of Inl e \<Rightarrow> Inl e | Inr s' \<Rightarrow> for_each xs body s')"

subsection \<open>Constants\<close>

definition MAX_X :: int where "MAX_X = 500"
definition MAX_Y :: int where "MAX_Y = 500"
definition STEPS_MAX :: int where "STEPS_MAX = 200"
definition UNCHANGED_MAX :: int where "UNCHANGED_MAX = 10"

subsection \<open>rand1\<close>

text \<open>\<open>int(x)\<close> on a float truncates toward zero.\<close>

definition py_int :: "real \<Rightarrow> int" where
  "py_int x = (if 0 \<le> x then \<lfloor>x\<rfloor> else \<lceil>x\<rceil>)"

definition aa :: real where "aa = 16807"
definition mm :: real where "mm = 2147483647"

text \<open>One pass of the loop of \<open>rand1\<close> on the pair \<open>(iseed, sseed)\<close>.\<close>

definition rand1_pass :: "int \<times> real \<Rightarrow> int \<times> real" where
  "rand1_pass st =
     (let sseed = real_of_int (fst st);
          iseed = py_int (aa * sseed / mm);
          sseed = (aa * sseed) - (mm * real_of_int iseed);
          iseed = py_int sseed
      in (iseed, sseed))"

text \<open>Lines 208 to 214: the five passes and the final division, computed exactly.\<close>

definition rand1_passes :: "int \<Rightarrow> real" where
  "rand1_passes iseed = snd (fold (\<lambda>i st. rand1_pass st) (xrange 1 6) (iseed, 0)) / mm"

text \<open>
  In the first pass \<open>aa * sseed\<close> converts the integer seed to a double: a seed of
  magnitude \<open>2^1024\<close> or more has no double and the conversion raises \<open>OverflowError\<close>.
  When \<open>16807 * |iseed| < 2^53\<close> every product and difference of the five passes is an
  integer below \<open>2^53\<close> and is exact; the quotient \<open>aa * sseed / mm\<close> is rounded by less
  than \<open>1 / mm\<close>, its distance to the next integer when it is not one, so \<open>int\<close> truncates
  it to the same integer. For the seeds between these two bounds the doubles of the
  script round, and the model stops.
\<close>

definition rand1 :: "int \<Rightarrow> py_error + real" where
  "rand1 iseed =
     (if 2 ^ 1024 \<le> \<bar>iseed\<bar> then Inl OverflowError
      else if 2 ^ 53 \<le> 16807 * \<bar>iseed\<bar> then Inl NotModelled
      else Inr (rand1_passes iseed))"

text \<open>
  \<open>x > y\<close> on floats, where \<open>y\<close> is a double and \<open>x\<close>, of magnitude below 1, is an exact
  value that stands for the double nearest to it: this double is within \<open>2^-54\<close> of \<open>x\<close>,
  and it is \<open>y\<close> when \<open>x = y\<close>. So the comparison of the script is the comparison of the
  exact values when these are equal or more than \<open>2^-53\<close> apart.
\<close>

definition float_gt :: "real \<Rightarrow> real \<Rightarrow> py_error + bool" where
  "float_gt x y =
     (if x = y then Inr False
      else if 1 / 2 ^ 53 < \<bar>x - y\<bar> then Inr (y < x)
      else Inl NotModelled)"

subsection \<open>initializeGrid\<close>

definition initializeGrid ::
    "int list list \<Rightarrow> int \<Rightarrow> int \<Rightarrow> int \<Rightarrow> real \<Rightarrow> py_error + int list list" where
  "initializeGrid grid nx ny seed prob =
     for_each (xrange 1 (nx + 1)) (\<lambda>i.
       for_each (xrange 1 (ny + 1)) (\<lambda>j g.
         let index = ny * i + j;
             newSeed = seed + index
         in bind_err (rand1 newSeed) (\<lambda>r.
            bind_err (float_gt r prob) (\<lambda>above.
            if above then set2 g i j 0 else set2 g i j 1)))) grid"

subsection \<open>gameOfLife\<close>

text \<open>The local variables of \<open>gameOfLife\<close> that live across iterations of its loop.\<close>

record gol_state =
  grid :: "int list list"
  tempGrid :: "int list list"
  steps :: int
  converged :: bool
  nUnchanged :: int
  oldVegies :: int
  old2Vegies :: int
  old3Vegies :: int
  vegies :: int

text \<open>Lines 113 to 117: the total amount of vegetation.\<close>

definition countVegies :: "int list list \<Rightarrow> int \<Rightarrow> int \<Rightarrow> py_error + int" where
  "countVegies g nx ny =
     for_each (xrange 1 (nx + 1)) (\<lambda>i.
       for_each (xrange 1 (ny + 1)) (\<lambda>j v.
         bind_err (get2 g i j) (\<lambda>c. Inr (v + c)))) 0"

text \<open>Lines 149 to 155: the sides of the grid are copied to simulate edge wrapping.\<close>

definition wrapRows :: "int \<Rightarrow> int \<Rightarrow> int list list \<Rightarrow> py_error + int list list" where
  "wrapRows nx ny =
     for_each (xrange 1 (nx + 1)) (\<lambda>i g.
       bind_err (get2 g i ny) (\<lambda>a.
       bind_err (set2 g i 0 a) (\<lambda>g.
       bind_err (get2 g i 1) (\<lambda>b.
       set2 g i (ny + 1) b))))"

definition wrapCols :: "int \<Rightarrow> int \<Rightarrow> int list list \<Rightarrow> py_error + int list list" where
  "wrapCols nx ny =
     for_each (xrange 0 (ny + 2)) (\<lambda>j g.
       bind_err (get2 g nx j) (\<lambda>a.
       bind_err (set2 g 0 j a) (\<lambda>g.
       bind_err (get2 g 1 j) (\<lambda>b.
       set2 g (nx + 1) j b))))"

definition wrapEdges :: "int \<Rightarrow> int \<Rightarrow> int list list \<Rightarrow> py_error + int list list" where
  "wrapEdges nx ny g = bind_err (wrapRows nx ny g) (wrapCols nx ny)"

text \<open>Lines 161 to 183: the new value of cell \<open>(i, j)\<close>, written into \<open>tempGrid\<close>.\<close>

definition updateCell ::
    "int list list \<Rightarrow> int \<Rightarrow> int \<Rightarrow> int list list \<Rightarrow> py_error + int list list" where
  "updateCell g i j t =
     bind_err (get2 g (i - 1) (j - 1)) (\<lambda>n1.
     bind_err (get2 g (i - 1) j) (\<lambda>n2.
     bind_err (get2 g (i - 1) (j + 1)) (\<lambda>n3.
     bind_err (get2 g i (j - 1)) (\<lambda>n4.
     bind_err (get2 g i (j + 1)) (\<lambda>n5.
     bind_err (get2 g (i + 1) (j - 1)) (\<lambda>n6.
     bind_err (get2 g (i + 1) j) (\<lambda>n7.
     bind_err (get2 g (i + 1) (j + 1)) (\<lambda>n8.
     let neighbors = n1 + n2 + n3 + n4 + n5 + n6 + n7 + n8 in
     bind_err (get2 g i j) (\<lambda>c.
     bind_err (set2 t i j c) (\<lambda>t.
     if neighbors \<ge> 25 \<or> neighbors \<le> 3 then
       bind_err (get2 t i j) (\<lambda>c.
       bind_err (set2 t i j (c - 1)) (\<lambda>t.
       bind_err (get2 t i j) (\<lambda>c.
       if c < 0 then set2 t i j 0 else Inr t)))
     else if neighbors \<le> 15 then
       bind_err (get2 t i j) (\<lambda>c.
       bind_err (set2 t i j (c + 1)) (\<lambda>t.
       bind_err (get2 t i j) (\<lambda>c.
       if c > 10 then set2 t i j 10 else Inr t)))
     else Inr t))))))))))"

text \<open>Lines 159 and 160: one time step, the result put in \<open>tempGrid\<close>.\<close>

definition timeStep ::
    "int list list \<Rightarrow> int \<Rightarrow> int \<Rightarrow> int list list \<Rightarrow> py_error + int list list" where
  "timeStep g nx ny =
     for_each (xrange 1 (nx + 1)) (\<lambda>i.
       for_each (xrange 1 (ny + 1)) (\<lambda>j. updateCell g i j))"

text \<open>Lines 186 to 188: \<open>tempGrid\<close> is copied back to the grid.\<close>

definition copyBack ::
    "int list list \<Rightarrow> int \<Rightarrow> int \<Rightarrow> int list list \<Rightarrow> py_error + int list list" where
  "copyBack t nx ny =
     for_each (xrange 1 (nx + 1)) (\<lambda>i.
       for_each (xrange 1 (ny + 1)) (\<lambda>j g.
         bind_err (get2 t i j) (\<lambda>c. set2 g i j c)))"

text \<open>Lines 147 to 188: the next time step, performed when the population has not stabilized.\<close>

definition performStep ::
    "int \<Rightarrow> int \<Rightarrow> int list list \<Rightarrow> int list list
      \<Rightarrow> py_error + (int list list \<times> int list list)" where
  "performStep nx ny g t =
     bind_err (wrapEdges nx ny g) (\<lambda>g.
     bind_err (timeStep g nx ny t) (\<lambda>t.
     bind_err (copyBack t nx ny g) (\<lambda>g.
     Inr (g, t))))"

text \<open>Lines 111 to 190: the body of the \<open>while\<close> loop.\<close>

definition gol_body :: "int \<Rightarrow> int \<Rightarrow> int \<Rightarrow> gol_state \<Rightarrow> py_error + gol_state" where
  "gol_body nx ny maxUnchanged st =
     bind_err (countVegies (grid st) nx ny) (\<lambda>v.
     let st = st\<lparr>vegies := v\<rparr>;
         st = (if vegies st = oldVegies st \<or> vegies st = old2Vegies st
                  \<or> vegies st = old3Vegies st
               then let st = st\<lparr>nUnchanged := nUnchanged st + 1\<rparr>
                    in if nUnchanged st \<ge> maxUnchanged then st\<lparr>converged := True\<rparr> else st
               else st\<lparr>nUnchanged := 0\<rparr>);
         st = st\<lparr>old3Vegies := old2Vegies st\<rparr>;
         st = st\<lparr>old2Vegies := oldVegies st\<rparr>;
         st = st\<lparr>oldVegies := vegies st\<rparr>
     in if \<not> converged st then
          bind_err (performStep nx ny (grid st) (tempGrid st)) (\<lambda>(g, t).
          Inr (st\<lparr>grid := g, tempGrid := t, steps := steps st + 1\<rparr>))
        else Inr st)"

lemma gol_body_steps:
  assumes "gol_body nx ny maxUnchanged st = Inr st'" and "\<not> converged st"
  shows "(converged st' \<and> steps st' = steps st) \<or> (\<not> converged st' \<and> steps st' = steps st + 1)"
  using assms
  by (auto simp: gol_body_def bind_err_def Let_def split: sum.splits if_splits prod.splits)

text \<open>Line 110: the \<open>while\<close> loop.\<close>

function gol_while :: "int \<Rightarrow> int \<Rightarrow> int \<Rightarrow> int \<Rightarrow> gol_state \<Rightarrow> py_error + gol_state" where
  "gol_while nx ny maxSteps maxUnchanged st =
     (if \<not> converged st \<and> vegies st > 0 \<and> steps st < maxSteps then
        (case gol_body nx ny maxUnchanged st of
           Inl e \<Rightarrow> Inl e
         | Inr st' \<Rightarrow> gol_while nx ny maxSteps maxUnchanged st')
      else Inr st)"
  by pat_completeness auto
termination
proof (relation "measure (\<lambda>(nx, ny, maxSteps, maxUnchanged, st).
          2 * nat (maxSteps - steps st) + (if converged st then 0 else 1))")
  show "wf (measure (\<lambda>(nx, ny, maxSteps, maxUnchanged, st).
          2 * nat (maxSteps - steps st) + (if converged st then 0 else 1)))"
    by simp
next
  fix nx ny maxSteps maxUnchanged :: int and st st' :: gol_state
  assume c: "\<not> converged st \<and> 0 < vegies st \<and> steps st < maxSteps"
    and b: "gol_body nx ny maxUnchanged st = Inr st'"
  from gol_body_steps [OF b] c
  show "((nx, ny, maxSteps, maxUnchanged, st'), (nx, ny, maxSteps, maxUnchanged, st))
          \<in> measure (\<lambda>(nx, ny, maxSteps, maxUnchanged, st).
              2 * nat (maxSteps - steps st) + (if converged st then 0 else 1))"
    by auto
qed

declare gol_while.simps [simp del]

text \<open>
  Lines 97 to 105 and 192. The grid is mutated in place, so the model returns it with the
  pair \<open>(steps, vegies)\<close>.
\<close>

definition gameOfLife ::
    "int list list \<Rightarrow> int \<Rightarrow> int \<Rightarrow> int \<Rightarrow> int \<Rightarrow> py_error + (int list list \<times> int \<times> int)" where
  "gameOfLife g nx ny maxSteps maxUnchanged =
     bind_err (gol_while nx ny maxSteps maxUnchanged
        \<lparr>grid = g,
         tempGrid = replicate (nat MAX_Y) (replicate (nat MAX_X) 0),
         steps = 1, converged = False, nUnchanged = 0,
         oldVegies = - 1, old2Vegies = - 1, old3Vegies = - 1, vegies = 1\<rparr>)
       (\<lambda>st. Inr (grid st, steps st, vegies st))"

subsection \<open>worker\<close>

text \<open>
  The queue of a worker is the list of the pairs put on it, oldest first. The worker owns
  one grid, allocated once and reused by every simulation it runs. Lines 46 to 48: one
  simulation of the worker, which returns the grid and the pair to put on the queue.
\<close>

definition trial ::
    "int \<Rightarrow> int \<Rightarrow> int \<Rightarrow> int \<Rightarrow> real \<Rightarrow> int \<Rightarrow> int \<Rightarrow> int \<Rightarrow> int \<Rightarrow> int list list
      \<Rightarrow> py_error + (int list list \<times> int \<times> int)" where
  "trial nx ny maxSteps maxUnchanged prob seed0 mySims myProcess i g =
     (let seed = seed0 * ((myProcess * mySims) - i) in
      bind_err (initializeGrid g nx ny seed prob) (\<lambda>g.
      gameOfLife g nx ny maxSteps maxUnchanged))"

text \<open>
  Line 45 and line 49: the loop over the simulations. The worker runs in a process of its
  own: when a simulation raises, the process ends, and what is left of it is the queue
  with the results put on it so far. The model returns this queue, and the exception
  that ended the worker, if any.
\<close>

fun run_trials ::
    "(int \<Rightarrow> int list list \<Rightarrow> py_error + (int list list \<times> int \<times> int)) \<Rightarrow> int list
      \<Rightarrow> int list list \<Rightarrow> (int \<times> int) list \<Rightarrow> (int \<times> int) list \<times> py_error option" where
  "run_trials f [] g queue = (queue, None)"
| "run_trials f (i # is) g queue =
     (case f i g of
        Inl e \<Rightarrow> (queue, Some e)
      | Inr (g', s, v) \<Rightarrow> run_trials f is g' (queue @ [(s, v)]))"

definition worker ::
    "int \<Rightarrow> int \<Rightarrow> int \<Rightarrow> int \<Rightarrow> real \<Rightarrow> int \<Rightarrow> int \<Rightarrow> int \<Rightarrow> (int \<times> int) list
      \<Rightarrow> (int \<times> int) list \<times> py_error option" where
  "worker nx ny maxSteps maxUnchanged prob seed0 mySims myProcess queue =
     run_trials (trial nx ny maxSteps maxUnchanged prob seed0 mySims myProcess)
       (xrange 0 mySims)
       (replicate (nat (MAX_Y + 2)) (replicate (nat (MAX_X + 2)) 0)) queue"

subsection \<open>main: distribution of the simulations and aggregation of the results\<close>

text \<open>
  The parameters that \<open>main\<close> reads from the command line and the console are arguments
  here. The worker processes share nothing, so the model runs them one after the other.
  An exception raised in a worker is not seen by \<open>main\<close>, which reads what the worker has
  left on its queue.
\<close>

record tally =
  ndied :: int
  nunsettled :: int
  nstable :: int
  totalStepsStable :: real
  totalVegiesStable :: real

text \<open>Lines 287 to 305: one result taken from a queue is recorded.\<close>

definition recordResult :: "int \<Rightarrow> int \<times> int \<Rightarrow> tally \<Rightarrow> tally" where
  "recordResult maxSteps queueResults c =
     (let stepsResult = fst queueResults;
          vegiesResult = snd queueResults
      in if vegiesResult = 0 then c\<lparr>ndied := ndied c + 1\<rparr>
         else if stepsResult \<ge> maxSteps then c\<lparr>nunsettled := nunsettled c + 1\<rparr>
         else c\<lparr>nstable := nstable c + 1,
                 totalStepsStable := totalStepsStable c + real_of_int stepsResult,
                 totalVegiesStable := totalVegiesStable c + real_of_int vegiesResult\<rparr>)"

text \<open>Lines 230 to 234: the counters before any result is recorded.\<close>

definition tally0 :: tally where
  "tally0 = \<lparr>ndied = 0, nunsettled = 0, nstable = 0,
             totalStepsStable = 0, totalVegiesStable = 0\<rparr>"

text \<open>Lines 282 to 305: the queues are emptied in the order of the processes.\<close>

definition collectResults ::
    "int \<Rightarrow> (int \<times> int) list list \<Rightarrow> int \<Rightarrow> py_error + tally" where
  "collectResults maxSteps queueList numProcesses =
     for_each (xrange 0 numProcesses) (\<lambda>i c.
       bind_err (py_get queueList i)
         (\<lambda>queue. Inr (fold (recordResult maxSteps) queue c))) tally0"

text \<open>Lines 309 to 311: the averages over the stabilized populations.\<close>

definition stableAverages :: "tally \<Rightarrow> py_error + tally" where
  "stableAverages c =
     (if nstable c > 0 then
        bind_err (py_truediv (totalStepsStable c) (real_of_int (nstable c))) (\<lambda>avgSteps.
        bind_err (py_truediv (totalVegiesStable c) (real_of_int (nstable c))) (\<lambda>avgVegies.
        Inr (c\<lparr>totalStepsStable := avgSteps, totalVegiesStable := avgVegies\<rparr>)))
      else Inr c)"

text \<open>What \<open>main\<close> prints at the end: the three percentages and the two averages.\<close>

record report =
  final :: tally
  percentDied :: real
  percentUnsettled :: real
  percentStabilized :: real

text \<open>Lines 271 to 278: the processes are started, each with a queue of its own.\<close>

definition startWorkers ::
    "int \<Rightarrow> int \<Rightarrow> int \<Rightarrow> int \<Rightarrow> real \<Rightarrow> int \<Rightarrow> int \<Rightarrow> int
      \<Rightarrow> ((int \<times> int) list \<times> py_error option) list" where
  "startWorkers nx ny maxSteps maxUnchanged probability seed0 simsPerProcess numProcesses =
     map (\<lambda>i. worker nx ny maxSteps maxUnchanged probability seed0 simsPerProcess (i + 1) [])
       (xrange 0 numProcesses)"

text \<open>
  Line 283: each process is joined before its queue is read. A process ends only when
  the results on its queue have gone into the pipe of the queue, which nobody reads before
  the join returns: with more results than the pipe holds, \<open>main\<close> waits for ever. The
  size of the pipe depends on the platform. A result in the pipe, the pickled pair of two
  integers below \<open>2^31\<close> with its header, takes less than 32 bytes, so \<open>QUEUE_SAFE\<close> results
  take less than 16 KiB, which a pipe holds on Linux (64 KiB) and on macOS (16 KiB). The
  model follows \<open>main\<close> when no queue holds more results than that, and when it has
  followed every worker.
\<close>

definition QUEUE_SAFE :: nat where "QUEUE_SAFE = 500"

definition joinWorkers ::
    "((int \<times> int) list \<times> py_error option) list \<Rightarrow> py_error + (int \<times> int) list list" where
  "joinWorkers runs =
     (if list_ex (\<lambda>run. snd run = Some NotModelled \<or> QUEUE_SAFE < length (fst run)) runs
      then Inl NotModelled
      else Inr (map fst runs))"

definition main :: "int \<Rightarrow> int \<Rightarrow> real \<Rightarrow> int \<Rightarrow> int \<Rightarrow> int \<Rightarrow> py_error + report" where
  "main nx ny probability nsims seed0 numProcesses =
     (let maxSteps = STEPS_MAX;
          maxUnchanged = UNCHANGED_MAX
      in bind_err (py_floordiv nsims numProcesses) (\<lambda>simsPerProcess.
         bind_err (joinWorkers (startWorkers nx ny maxSteps maxUnchanged probability seed0
                     simsPerProcess numProcesses)) (\<lambda>queueList.
         bind_err (collectResults maxSteps queueList numProcesses) (\<lambda>c.
         bind_err (stableAverages c) (\<lambda>c.
         bind_err (py_truediv (100 * real_of_int (ndied c)) (real_of_int nsims)) (\<lambda>died.
         bind_err (py_truediv (100 * real_of_int (nunsettled c)) (real_of_int nsims)) (\<lambda>unsettled.
         bind_err (py_truediv (100 * real_of_int (nstable c)) (real_of_int nsims)) (\<lambda>stabilized.
         Inr \<lparr>final = c, percentDied = died, percentUnsettled = unsettled,
              percentStabilized = stabilized\<rparr>))))))))"

section \<open>Properties\<close>

subsection \<open>Grids of known dimensions\<close>

lemma bind_err_Inr [simp]: "bind_err (Inr x) f = f x"
  by (simp add: bind_err_def)

lemma bind_err_Inl [simp]: "bind_err (Inl e) f = Inl e"
  by (simp add: bind_err_def)

lemma set_xrange [simp]: "set (xrange a b) = {a..<b}"
  by (auto simp: xrange_def)

definition cell :: "int list list \<Rightarrow> int \<Rightarrow> int \<Rightarrow> int" where
  "cell g i j = g ! nat i ! nat j"

definition upd :: "int list list \<Rightarrow> int \<Rightarrow> int \<Rightarrow> int \<Rightarrow> int list list" where
  "upd g i j v = g[nat i := (g ! nat i)[nat j := v]]"

definition wf_grid :: "nat \<Rightarrow> nat \<Rightarrow> int list list \<Rightarrow> bool" where
  "wf_grid R C g \<longleftrightarrow> length g = R \<and> (\<forall>row \<in> set g. length row = C)"

lemma py_index_in_range:
  "0 \<le> i \<Longrightarrow> i < int (length xs) \<Longrightarrow> py_index xs i = Inr (nat i)"
  by (simp add: py_index_def)

lemma wf_row:
  assumes "wf_grid R C g" "0 \<le> i" "i < int R"
  shows "nat i < length g" and "length (g ! nat i) = C"
proof -
  from assms show n: "nat i < length g"
    by (simp add: wf_grid_def nat_less_iff)
  from assms nth_mem [OF n] show "length (g ! nat i) = C"
    unfolding wf_grid_def by blast
qed

lemma get2_wf:
  assumes "wf_grid R C g" "0 \<le> i" "i < int R" "0 \<le> j" "j < int C"
  shows "get2 g i j = Inr (cell g i j)"
  using assms wf_row [OF assms(1-3)]
  by (simp add: get2_def py_get_def py_index_in_range cell_def)

lemma set2_wf:
  assumes "wf_grid R C g" "0 \<le> i" "i < int R" "0 \<le> j" "j < int C"
  shows "set2 g i j v = Inr (upd g i j v)"
  using assms wf_row [OF assms(1-3)]
  by (simp add: set2_def py_set_def py_index_in_range upd_def)

lemma wf_upd: "wf_grid R C g \<Longrightarrow> wf_grid R C (upd g i j v)"
proof (cases "nat i < length g")
  case True
  assume "wf_grid R C g"
  with True nth_mem [OF True] show ?thesis
    by (auto simp: wf_grid_def upd_def dest!: set_update_subset_insert [THEN subsetD])
next
  case False
  assume "wf_grid R C g"
  with False show ?thesis
    by (simp add: upd_def list_update_beyond)
qed

lemma cell_upd:
  assumes "wf_grid R C g" "0 \<le> i" "i < int R" "0 \<le> j" "j < int C" "0 \<le> i'" "0 \<le> j'"
  shows "cell (upd g i j v) i' j' = (if i' = i \<and> j' = j then v else cell g i' j')"
proof -
  note l = wf_row [OF assms(1-3)]
  show ?thesis
  proof (cases "i' = i")
    case True
    with assms l show ?thesis
      by (auto simp: cell_def upd_def nth_list_update)
  next
    case False
    with assms have "nat i' \<noteq> nat i" by simp
    with False show ?thesis
      by (simp add: cell_def upd_def)
  qed
qed

lemma upd_upd: "upd (upd g i j a) i j b = upd g i j b"
  by (cases "nat i < length g") (simp_all add: upd_def list_update_beyond)

lemma for_each_pure:
  assumes "\<And>x s. x \<in> set xs \<Longrightarrow> I s \<Longrightarrow> body x s = Inr (F x s) \<and> I (F x s)" and "I s"
  shows "for_each xs body s = Inr (fold F xs s) \<and> I (fold F xs s)"
  using assms by (induction xs arbitrary: s) auto

definition fill :: "(int \<Rightarrow> int \<Rightarrow> int) \<Rightarrow> int list \<Rightarrow> int list \<Rightarrow> int list list \<Rightarrow> int list list" where
  "fill val is js = fold (\<lambda>i. fold (\<lambda>j g. upd g i j (val i j)) js) is"

lemma wf_fold_upd: "wf_grid R C g \<Longrightarrow> wf_grid R C (fold (\<lambda>j g. upd g i j (val j)) js g)"
  by (induction js arbitrary: g) (simp_all add: wf_upd)

lemma wf_fill: "wf_grid R C g \<Longrightarrow> wf_grid R C (fill val is js g)"
  unfolding fill_def
  by (induction "is" arbitrary: g) (simp_all add: wf_fold_upd)

lemma cell_fold_upd:
  assumes "wf_grid R C g" "0 \<le> i" "i < int R" "\<forall>j \<in> set js. 0 \<le> j \<and> j < int C" "0 \<le> i'" "0 \<le> j'"
  shows "cell (fold (\<lambda>j g. upd g i j (val j)) js g) i' j'
           = (if i' = i \<and> j' \<in> set js then val j' else cell g i' j')"
  using assms
proof (induction js arbitrary: g)
  case Nil
  then show ?case by simp
next
  case (Cons j js)
  from Cons.prems have "wf_grid R C (upd g i j (val j))"
    by (simp add: wf_upd)
  with Cons show ?case
    by (auto simp: cell_upd)
qed

lemma cell_fill:
  assumes "wf_grid R C g" "\<forall>i \<in> set is. 0 \<le> i \<and> i < int R"
    "\<forall>j \<in> set js. 0 \<le> j \<and> j < int C" "0 \<le> i'" "0 \<le> j'"
  shows "cell (fill val is js g) i' j'
           = (if i' \<in> set is \<and> j' \<in> set js then val i' j' else cell g i' j')"
  using assms unfolding fill_def
proof (induction "is" arbitrary: g)
  case Nil
  then show ?case by simp
next
  case (Cons i "is")
  let ?g = "fold (\<lambda>j g. upd g i j (val i j)) js g"
  from Cons.prems have "wf_grid R C ?g"
    by (simp add: wf_fold_upd)
  with Cons show ?case
    by (auto simp: cell_fold_upd [where R=R and C=C])
qed

subsection \<open>The total amount of vegetation\<close>

lemma count_row:
  assumes "wf_grid R C g" "0 \<le> i" "i < int R" "\<forall>j \<in> set js. 0 \<le> j \<and> j < int C"
  shows "for_each js (\<lambda>j v. bind_err (get2 g i j) (\<lambda>c. Inr (v + c))) v
           = Inr (v + sum_list (map (cell g i) js))"
  using assms(4)
proof (induction js arbitrary: v)
  case Nil
  then show ?case by simp
next
  case (Cons j js)
  with assms(1-3) show ?case
    by (simp add: get2_wf [where R=R and C=C])
qed

lemma count_rows:
  assumes "wf_grid R C g" "\<forall>i \<in> set is. 0 \<le> i \<and> i < int R"
    "\<forall>j \<in> set js. 0 \<le> j \<and> j < int C"
  shows "for_each is (\<lambda>i. for_each js (\<lambda>j v. bind_err (get2 g i j) (\<lambda>c. Inr (v + c)))) v
           = Inr (v + sum_list (map (\<lambda>i. sum_list (map (cell g i) js)) is))"
  using assms(2)
proof (induction "is" arbitrary: v)
  case Nil
  then show ?case by simp
next
  case (Cons i "is")
  with assms(1,3) show ?case
    by (simp add: count_row [where R=R and C=C])
qed

definition interior_sum :: "int list list \<Rightarrow> int \<Rightarrow> int \<Rightarrow> int" where
  "interior_sum g nx ny = (\<Sum>i = 1..nx. \<Sum>j = 1..ny. cell g i j)"

lemma sum_list_upto: "sum_list (map f [a..b]) = (\<Sum>i = a..b. f i)"
  by (simp add: interv_sum_list_conv_sum_set_int)

lemma countVegies_wf:
  assumes "wf_grid R C g" "nx < int R" "ny < int C"
  shows "countVegies g nx ny = Inr (interior_sum g nx ny)"
proof -
  have "\<forall>i \<in> set (xrange 1 (nx + 1)). 0 \<le> i \<and> i < int R"
    and "\<forall>j \<in> set (xrange 1 (ny + 1)). 0 \<le> j \<and> j < int C"
    using assms by auto
  from count_rows [OF assms(1) this, of 0] show ?thesis
    by (simp add: countVegies_def interior_sum_def xrange_def sum_list_upto)
qed

subsection \<open>Edge wrapping\<close>

definition wrapRowF :: "int \<Rightarrow> int \<Rightarrow> int list list \<Rightarrow> int list list" where
  "wrapRowF ny i g = upd (upd g i 0 (cell g i ny)) i (ny + 1) (cell g i 1)"

definition wrapColF :: "int \<Rightarrow> int \<Rightarrow> int list list \<Rightarrow> int list list" where
  "wrapColF nx j g = upd (upd g 0 j (cell g nx j)) (nx + 1) j (cell g 1 j)"

lemma wf_wrapRowF: "wf_grid R C g \<Longrightarrow> wf_grid R C (wrapRowF ny i g)"
  by (simp add: wrapRowF_def wf_upd)

lemma wf_wrapColF: "wf_grid R C g \<Longrightarrow> wf_grid R C (wrapColF nx j g)"
  by (simp add: wrapColF_def wf_upd)

lemma wrapRow_step:
  assumes "wf_grid R C g" "0 \<le> i" "i < int R" "1 \<le> ny" "ny + 1 < int C"
  shows "bind_err (get2 g i ny) (\<lambda>a. bind_err (set2 g i 0 a) (\<lambda>g.
           bind_err (get2 g i 1) (\<lambda>b. set2 g i (ny + 1) b))) = Inr (wrapRowF ny i g)"
proof -
  let ?g = "upd g i 0 (cell g i ny)"
  have w: "wf_grid R C ?g" using assms(1) by (rule wf_upd)
  have "cell ?g i 1 = cell g i 1"
    using assms by (simp add: cell_upd [where R=R and C=C])
  with assms w show ?thesis
    by (simp add: get2_wf [where R=R and C=C] set2_wf [where R=R and C=C] wrapRowF_def)
qed

lemma wrapCol_step:
  assumes "wf_grid R C g" "0 \<le> j" "j < int C" "1 \<le> nx" "nx + 1 < int R"
  shows "bind_err (get2 g nx j) (\<lambda>a. bind_err (set2 g 0 j a) (\<lambda>g.
           bind_err (get2 g 1 j) (\<lambda>b. set2 g (nx + 1) j b))) = Inr (wrapColF nx j g)"
proof -
  let ?g = "upd g 0 j (cell g nx j)"
  have w: "wf_grid R C ?g" using assms(1) by (rule wf_upd)
  have "cell ?g 1 j = cell g 1 j"
    using assms by (simp add: cell_upd [where R=R and C=C])
  with assms w show ?thesis
    by (simp add: get2_wf [where R=R and C=C] set2_wf [where R=R and C=C] wrapColF_def)
qed

lemma wrapRows_wf:
  assumes "wf_grid R C g" "nx < int R" "1 \<le> ny" "ny + 1 < int C"
  shows "wrapRows nx ny g = Inr (fold (wrapRowF ny) (xrange 1 (nx + 1)) g)"
proof -
  have "for_each (xrange 1 (nx + 1)) (\<lambda>i g. bind_err (get2 g i ny) (\<lambda>a. bind_err (set2 g i 0 a) (\<lambda>g.
           bind_err (get2 g i 1) (\<lambda>b. set2 g i (ny + 1) b)))) g
        = Inr (fold (wrapRowF ny) (xrange 1 (nx + 1)) g)
        \<and> wf_grid R C (fold (wrapRowF ny) (xrange 1 (nx + 1)) g)"
    using assms by (intro for_each_pure) (auto simp: wrapRow_step wf_wrapRowF)
  then show ?thesis by (simp add: wrapRows_def)
qed

lemma wrapCols_wf:
  assumes "wf_grid R C g" "ny + 1 < int C" "1 \<le> nx" "nx + 1 < int R"
  shows "wrapCols nx ny g = Inr (fold (wrapColF nx) (xrange 0 (ny + 2)) g)"
proof -
  have "for_each (xrange 0 (ny + 2)) (\<lambda>j g. bind_err (get2 g nx j) (\<lambda>a. bind_err (set2 g 0 j a) (\<lambda>g.
           bind_err (get2 g 1 j) (\<lambda>b. set2 g (nx + 1) j b)))) g
        = Inr (fold (wrapColF nx) (xrange 0 (ny + 2)) g)
        \<and> wf_grid R C (fold (wrapColF nx) (xrange 0 (ny + 2)) g)"
    using assms by (intro for_each_pure) (auto simp: wrapCol_step wf_wrapColF)
  then show ?thesis by (simp add: wrapCols_def)
qed

lemma wf_fold_wrapRowF: "wf_grid R C g \<Longrightarrow> wf_grid R C (fold (wrapRowF ny) is g)"
  by (induction "is" arbitrary: g) (simp_all add: wf_wrapRowF)

lemma wf_fold_wrapColF: "wf_grid R C g \<Longrightarrow> wf_grid R C (fold (wrapColF nx) js g)"
  by (induction js arbitrary: g) (simp_all add: wf_wrapColF)

lemma cell_wrapRowF:
  assumes "wf_grid R C g" "0 \<le> i" "i < int R" "1 \<le> ny" "ny + 1 < int C" "0 \<le> i'" "0 \<le> j'"
  shows "cell (wrapRowF ny i g) i' j'
           = (if i' = i \<and> j' = 0 then cell g i ny
              else if i' = i \<and> j' = ny + 1 then cell g i 1 else cell g i' j')"
  using assms wf_upd [OF assms(1), of i 0 "cell g i ny"]
  by (simp add: wrapRowF_def cell_upd [where R=R and C=C])

lemma cell_wrapColF:
  assumes "wf_grid R C g" "0 \<le> j" "j < int C" "1 \<le> nx" "nx + 1 < int R" "0 \<le> i'" "0 \<le> j'"
  shows "cell (wrapColF nx j g) i' j'
           = (if i' = 0 \<and> j' = j then cell g nx j
              else if i' = nx + 1 \<and> j' = j then cell g 1 j else cell g i' j')"
  using assms wf_upd [OF assms(1), of 0 j "cell g nx j"]
  by (simp add: wrapColF_def cell_upd [where R=R and C=C])

lemma cell_fold_wrapRowF:
  assumes "wf_grid R C g" "\<forall>i \<in> set is. 0 \<le> i \<and> i < int R" "1 \<le> ny" "ny + 1 < int C"
    "0 \<le> i'" "0 \<le> j'"
  shows "cell (fold (wrapRowF ny) is g) i' j'
           = (if i' \<in> set is \<and> j' = 0 then cell g i' ny
              else if i' \<in> set is \<and> j' = ny + 1 then cell g i' 1 else cell g i' j')"
  using assms(1,2)
proof (induction "is" arbitrary: g)
  case Nil
  then show ?case by simp
next
  case (Cons i "is")
  from Cons.prems have w: "wf_grid R C (wrapRowF ny i g)"
    by (simp add: wf_wrapRowF)
  from Cons.prems have r: "\<forall>i \<in> set is. 0 \<le> i \<and> i < int R" and i: "0 \<le> i" "i < int R"
    by simp_all
  note c = cell_wrapRowF [OF Cons.prems(1) i assms(3,4)]
  from assms(3-6) show ?case
    by (simp add: Cons.IH [OF w r] c)
qed

lemma cell_fold_wrapColF:
  assumes "wf_grid R C g" "\<forall>j \<in> set js. 0 \<le> j \<and> j < int C" "1 \<le> nx" "nx + 1 < int R"
    "0 \<le> i'" "0 \<le> j'"
  shows "cell (fold (wrapColF nx) js g) i' j'
           = (if j' \<in> set js \<and> i' = 0 then cell g nx j'
              else if j' \<in> set js \<and> i' = nx + 1 then cell g 1 j' else cell g i' j')"
  using assms(1,2)
proof (induction js arbitrary: g)
  case Nil
  then show ?case by simp
next
  case (Cons j js)
  from Cons.prems have w: "wf_grid R C (wrapColF nx j g)"
    by (simp add: wf_wrapColF)
  from Cons.prems have r: "\<forall>j \<in> set js. 0 \<le> j \<and> j < int C" and j: "0 \<le> j" "j < int C"
    by simp_all
  note c = cell_wrapColF [OF Cons.prems(1) j assms(3,4)]
  from assms(3-6) show ?case
    by (simp add: Cons.IH [OF w r] c)
qed

definition torus :: "int \<Rightarrow> int \<Rightarrow> int" where
  "torus n k = (k - 1) mod n + 1"

lemma torus_cases:
  assumes "1 \<le> n" "0 \<le> k" "k \<le> n + 1"
  shows "torus n k = (if k = 0 then n else if k = n + 1 then 1 else k)"
  using assms by (auto simp: torus_def zmod_minus1)

definition wrapped :: "int list list \<Rightarrow> int \<Rightarrow> int \<Rightarrow> int list list" where
  "wrapped g nx ny = fold (wrapColF nx) (xrange 0 (ny + 2)) (fold (wrapRowF ny) (xrange 1 (nx + 1)) g)"

lemma wrapEdges_wf:
  assumes "wf_grid R C g" "1 \<le> nx" "nx + 1 < int R" "1 \<le> ny" "ny + 1 < int C"
  shows "wrapEdges nx ny g = Inr (wrapped g nx ny)"
  using assms
  by (simp add: wrapEdges_def wrapped_def wrapRows_wf [where R=R and C=C]
      wrapCols_wf [where R=R and C=C] wf_fold_wrapRowF)

lemma wf_wrapped: "wf_grid R C g \<Longrightarrow> wf_grid R C (wrapped g nx ny)"
  by (simp add: wrapped_def wf_fold_wrapRowF wf_fold_wrapColF)

lemma cell_wrapped:
  assumes "wf_grid R C g" "1 \<le> nx" "nx + 1 < int R" "1 \<le> ny" "ny + 1 < int C"
    "0 \<le> i" "i \<le> nx + 1" "0 \<le> j" "j \<le> ny + 1"
  shows "cell (wrapped g nx ny) i j = cell g (torus nx i) (torus ny j)"
proof -
  let ?g1 = "fold (wrapRowF ny) (xrange 1 (nx + 1)) g"
  have w1: "wf_grid R C ?g1" using assms(1) by (rule wf_fold_wrapRowF)
  have r1: "\<forall>i \<in> set (xrange 1 (nx + 1)). 0 \<le> i \<and> i < int R"
    and r2: "\<forall>j \<in> set (xrange 0 (ny + 2)). 0 \<le> j \<and> j < int C"
    using assms by auto
  have c1: "cell ?g1 i' j' = (if i' \<in> set (xrange 1 (nx + 1)) \<and> j' = 0 then cell g i' ny
              else if i' \<in> set (xrange 1 (nx + 1)) \<and> j' = ny + 1 then cell g i' 1 else cell g i' j')"
    if "0 \<le> i'" "0 \<le> j'" for i' j'
    using cell_fold_wrapRowF [OF assms(1) r1 assms(4,5) that] .
  have c2: "cell (wrapped g nx ny) i j = (if j \<in> set (xrange 0 (ny + 2)) \<and> i = 0 then cell ?g1 nx j
              else if j \<in> set (xrange 0 (ny + 2)) \<and> i = nx + 1 then cell ?g1 1 j else cell ?g1 i j)"
    unfolding wrapped_def
    using cell_fold_wrapColF [OF w1 r2 assms(2,3,6,8)] .
  from assms show ?thesis
    by (simp add: c2 c1 torus_cases)
qed

subsection \<open>The update of one cell and the loops over the interior\<close>

definition spec_rule :: "int \<Rightarrow> int \<Rightarrow> int" where
  "spec_rule v n =
     (if n \<ge> 25 \<or> n \<le> 3 then max 0 (v - 1)
      else if n \<le> 15 then min 10 (v + 1)
      else v)"

definition neighbors8 :: "int list list \<Rightarrow> int \<Rightarrow> int \<Rightarrow> int" where
  "neighbors8 g i j =
     cell g (i - 1) (j - 1) + cell g (i - 1) j + cell g (i - 1) (j + 1)
     + cell g i (j - 1) + cell g i (j + 1)
     + cell g (i + 1) (j - 1) + cell g (i + 1) j + cell g (i + 1) (j + 1)"

lemma get2_upd_same:
  assumes "wf_grid R C t" "0 \<le> i" "i < int R" "0 \<le> j" "j < int C"
  shows "get2 (upd t i j v) i j = Inr v"
  using assms wf_upd [OF assms(1), of i j v]
  by (simp add: get2_wf [where R=R and C=C] cell_upd [where R=R and C=C])

lemma updateCell_wf:
  assumes g: "wf_grid Rg Cg g" and t: "wf_grid Rt Ct t"
    and i: "1 \<le> i" "i + 1 < int Rg" "i < int Rt"
    and j: "1 \<le> j" "j + 1 < int Cg" "j < int Ct"
  shows "updateCell g i j t = Inr (upd t i j (spec_rule (cell g i j) (neighbors8 g i j)))"
proof -
  have rd: "get2 g i' j' = Inr (cell g i' j')"
    if "i - 1 \<le> i'" "i' \<le> i + 1" "j - 1 \<le> j'" "j' \<le> j + 1" for i' j'
    using g i j that by (intro get2_wf [where R=Rg and C=Cg]) auto
  have same: "get2 (upd t i j v) i j = Inr v" for v
    using t i j by (intro get2_upd_same [where R=Rt and C=Ct]) auto
  have wr: "set2 (upd t i j v) i j w = Inr (upd t i j w)" for v w
    using wf_upd [OF t, of i j v] i j
    by (simp add: set2_wf [where R=Rt and C=Ct] upd_upd)
  have wr0: "set2 t i j w = Inr (upd t i j w)" for w
    using t i j by (simp add: set2_wf [where R=Rt and C=Ct])
  show ?thesis
    by (auto simp: updateCell_def rd same wr wr0 Let_def spec_rule_def neighbors8_def
        max_def min_def intro!: arg_cong [where f="upd t i j"])
qed

lemma timeStep_wf:
  assumes g: "wf_grid Rg Cg g" and t: "wf_grid Rt Ct t"
    and "0 \<le> nx" "nx + 1 < int Rg" "nx < int Rt" "0 \<le> ny" "ny + 1 < int Cg" "ny < int Ct"
  shows "timeStep g nx ny t
           = Inr (fill (\<lambda>i j. spec_rule (cell g i j) (neighbors8 g i j))
                    (xrange 1 (nx + 1)) (xrange 1 (ny + 1)) t)"
proof -
  let ?val = "\<lambda>i j. spec_rule (cell g i j) (neighbors8 g i j)"
  have inner: "for_each (xrange 1 (ny + 1)) (\<lambda>j. updateCell g i j) s
                 = Inr (fold (\<lambda>j g. upd g i j (?val i j)) (xrange 1 (ny + 1)) s)
               \<and> wf_grid Rt Ct (fold (\<lambda>j g. upd g i j (?val i j)) (xrange 1 (ny + 1)) s)"
    if "i \<in> set (xrange 1 (nx + 1))" "wf_grid Rt Ct s" for i s
    using that assms
    by (intro for_each_pure [where I="wf_grid Rt Ct"])
       (auto simp: updateCell_wf [where Rg=Rg and Cg=Cg and Rt=Rt and Ct=Ct] wf_upd)
  have "for_each (xrange 1 (nx + 1)) (\<lambda>i. for_each (xrange 1 (ny + 1)) (\<lambda>j. updateCell g i j)) t
          = Inr (fold (\<lambda>i. fold (\<lambda>j g. upd g i j (?val i j)) (xrange 1 (ny + 1))) (xrange 1 (nx + 1)) t)
        \<and> wf_grid Rt Ct (fold (\<lambda>i. fold (\<lambda>j g. upd g i j (?val i j)) (xrange 1 (ny + 1))) (xrange 1 (nx + 1)) t)"
    using inner t by (rule for_each_pure [where I="wf_grid Rt Ct"]) auto
  then show ?thesis
    by (simp add: timeStep_def fill_def)
qed

lemma copyBack_wf:
  assumes g: "wf_grid Rg Cg g" and t: "wf_grid Rt Ct t"
    and "nx < int Rg" "nx < int Rt" "ny < int Cg" "ny < int Ct"
  shows "copyBack t nx ny g = Inr (fill (cell t) (xrange 1 (nx + 1)) (xrange 1 (ny + 1)) g)"
proof -
  have inner: "for_each (xrange 1 (ny + 1)) (\<lambda>j g. bind_err (get2 t i j) (\<lambda>c. set2 g i j c)) s
                 = Inr (fold (\<lambda>j g. upd g i j (cell t i j)) (xrange 1 (ny + 1)) s)
               \<and> wf_grid Rg Cg (fold (\<lambda>j g. upd g i j (cell t i j)) (xrange 1 (ny + 1)) s)"
    if "i \<in> set (xrange 1 (nx + 1))" "wf_grid Rg Cg s" for i s
    using that assms
    by (intro for_each_pure [where I="wf_grid Rg Cg"])
       (auto simp: get2_wf [where R=Rt and C=Ct] set2_wf [where R=Rg and C=Cg] wf_upd)
  have "for_each (xrange 1 (nx + 1))
          (\<lambda>i. for_each (xrange 1 (ny + 1)) (\<lambda>j g. bind_err (get2 t i j) (\<lambda>c. set2 g i j c))) g
          = Inr (fold (\<lambda>i. fold (\<lambda>j g. upd g i j (cell t i j)) (xrange 1 (ny + 1))) (xrange 1 (nx + 1)) g)
        \<and> wf_grid Rg Cg (fold (\<lambda>i. fold (\<lambda>j g. upd g i j (cell t i j)) (xrange 1 (ny + 1))) (xrange 1 (nx + 1)) g)"
    using inner g by (rule for_each_pure [where I="wf_grid Rg Cg"]) auto
  then show ?thesis
    by (simp add: copyBack_def fill_def)
qed

subsection \<open>One time step\<close>

definition spec_neighbors :: "int list list \<Rightarrow> int \<Rightarrow> int \<Rightarrow> int \<Rightarrow> int \<Rightarrow> int" where
  "spec_neighbors g nx ny i j =
     (\<Sum>(di, dj) \<leftarrow> [(- 1, - 1), (- 1, 0), (- 1, 1), (0, - 1), (0, 1), (1, - 1), (1, 0), (1, 1)].
        cell g (torus nx (i + di)) (torus ny (j + dj)))"

lemma neighbors8_wrapped:
  assumes "wf_grid R C g" "1 \<le> nx" "nx + 1 < int R" "1 \<le> ny" "ny + 1 < int C"
    "1 \<le> i" "i \<le> nx" "1 \<le> j" "j \<le> ny"
  shows "neighbors8 (wrapped g nx ny) i j = spec_neighbors g nx ny i j"
proof -
  have "cell (wrapped g nx ny) i' j' = cell g (torus nx i') (torus ny j')"
    if "i - 1 \<le> i'" "i' \<le> i + 1" "j - 1 \<le> j'" "j' \<le> j + 1" for i' j'
    using assms that by (intro cell_wrapped [where R=R and C=C]) auto
  then show ?thesis
    by (simp add: neighbors8_def spec_neighbors_def)
qed

lemma cell_wrapped_interior:
  assumes "wf_grid R C g" "1 \<le> nx" "nx + 1 < int R" "1 \<le> ny" "ny + 1 < int C"
    "1 \<le> i" "i \<le> nx" "1 \<le> j" "j \<le> ny"
  shows "cell (wrapped g nx ny) i j = cell g i j"
  using assms cell_wrapped [OF assms(1-5), of i j]
  by (simp add: torus_cases)

definition stepped :: "int list list \<Rightarrow> int \<Rightarrow> int \<Rightarrow> int list list \<Rightarrow> int list list" where
  "stepped g nx ny t =
     fill (\<lambda>i j. spec_rule (cell (wrapped g nx ny) i j) (neighbors8 (wrapped g nx ny) i j))
       (xrange 1 (nx + 1)) (xrange 1 (ny + 1)) t"

lemma performStep_wf:
  assumes g: "wf_grid Rg Cg g" and t: "wf_grid Rt Ct t"
    and d: "1 \<le> nx" "nx + 1 < int Rg" "nx < int Rt" "1 \<le> ny" "ny + 1 < int Cg" "ny < int Ct"
  shows "performStep nx ny g t
           = Inr (fill (cell (stepped g nx ny t)) (xrange 1 (nx + 1)) (xrange 1 (ny + 1))
                    (wrapped g nx ny),
                  stepped g nx ny t)"
proof -
  have w: "wf_grid Rg Cg (wrapped g nx ny)" using g by (rule wf_wrapped)
  have s: "wf_grid Rt Ct (stepped g nx ny t)" unfolding stepped_def using t by (rule wf_fill)
  have 1: "wrapEdges nx ny g = Inr (wrapped g nx ny)"
    using g d by (intro wrapEdges_wf [where R=Rg and C=Cg]) auto
  have 2: "timeStep (wrapped g nx ny) nx ny t = Inr (stepped g nx ny t)"
    unfolding stepped_def using w t d
    by (intro timeStep_wf [where Rg=Rg and Cg=Cg and Rt=Rt and Ct=Ct]) auto
  have 3: "copyBack (stepped g nx ny t) nx ny (wrapped g nx ny)
             = Inr (fill (cell (stepped g nx ny t)) (xrange 1 (nx + 1)) (xrange 1 (ny + 1))
                      (wrapped g nx ny))"
    using w s d by (intro copyBack_wf [where Rg=Rg and Cg=Cg and Rt=Rt and Ct=Ct]) auto
  show ?thesis
    by (simp add: performStep_def 1 2 3)
qed

lemma performStep_cells:
  assumes g: "wf_grid Rg Cg g" and t: "wf_grid Rt Ct t"
    and d: "1 \<le> nx" "nx + 1 < int Rg" "nx < int Rt" "1 \<le> ny" "ny + 1 < int Cg" "ny < int Ct"
  shows "\<exists>g' t'. performStep nx ny g t = Inr (g', t') \<and> wf_grid Rg Cg g' \<and> wf_grid Rt Ct t'
           \<and> (\<forall>i \<in> {1..nx}. \<forall>j \<in> {1..ny}.
                 cell g' i j = spec_rule (cell g i j) (spec_neighbors g nx ny i j))"
proof -
  let ?t = "stepped g nx ny t"
  let ?g = "fill (cell ?t) (xrange 1 (nx + 1)) (xrange 1 (ny + 1)) (wrapped g nx ny)"
  have w: "wf_grid Rg Cg (wrapped g nx ny)" using g by (rule wf_wrapped)
  have s: "wf_grid Rt Ct ?t" unfolding stepped_def using t by (rule wf_fill)
  have wg: "wf_grid Rg Cg ?g" using w by (rule wf_fill)
  have rg: "\<forall>i \<in> set (xrange 1 (nx + 1)). 0 \<le> i \<and> i < int Rg"
    "\<forall>j \<in> set (xrange 1 (ny + 1)). 0 \<le> j \<and> j < int Cg"
    and rt: "\<forall>i \<in> set (xrange 1 (nx + 1)). 0 \<le> i \<and> i < int Rt"
    "\<forall>j \<in> set (xrange 1 (ny + 1)). 0 \<le> j \<and> j < int Ct"
    using d by auto
  have "cell ?g i j = spec_rule (cell g i j) (spec_neighbors g nx ny i j)"
    if "i \<in> {1..nx}" "j \<in> {1..ny}" for i j
  proof -
    from that have b: "1 \<le> i" "i \<le> nx" "1 \<le> j" "j \<le> ny" "0 \<le> i" "0 \<le> j" by auto
    have "cell ?g i j = cell ?t i j"
      using that by (simp add: cell_fill [OF w rg b(5,6)])
    also have "\<dots> = spec_rule (cell (wrapped g nx ny) i j) (neighbors8 (wrapped g nx ny) i j)"
      unfolding stepped_def using that by (simp add: cell_fill [OF t rt b(5,6)])
    also have "\<dots> = spec_rule (cell g i j) (spec_neighbors g nx ny i j)"
      using neighbors8_wrapped [OF g d(1,2,4,5) b(1-4)]
        cell_wrapped_interior [OF g d(1,2,4,5) b(1-4)] by simp
    finally show ?thesis .
  qed
  with performStep_wf [OF g t d] wg s show ?thesis by blast
qed

subsection \<open>The loop of gameOfLife\<close>

definition gol_inv :: "gol_state \<Rightarrow> bool" where
  "gol_inv st \<longleftrightarrow> wf_grid 502 502 (grid st) \<and> wf_grid 500 500 (tempGrid st)"

definition in_range :: "int \<Rightarrow> int \<Rightarrow> bool" where
  "in_range nx ny \<longleftrightarrow> 1 \<le> nx \<and> nx \<le> 499 \<and> 1 \<le> ny \<and> ny \<le> 499"

lemma gol_body_wf:
  assumes "gol_inv st" "in_range nx ny"
  shows "\<exists>st'. gol_body nx ny maxUnchanged st = Inr st' \<and> gol_inv st'
           \<and> vegies st' = interior_sum (grid st) nx ny
           \<and> nUnchanged st' =
                (if vegies st' = oldVegies st \<or> vegies st' = old2Vegies st \<or> vegies st' = old3Vegies st
                 then nUnchanged st + 1 else 0)
           \<and> converged st' =
                (converged st \<or>
                 ((vegies st' = oldVegies st \<or> vegies st' = old2Vegies st \<or> vegies st' = old3Vegies st)
                  \<and> nUnchanged st + 1 \<ge> maxUnchanged))
           \<and> oldVegies st' = vegies st' \<and> old2Vegies st' = oldVegies st
           \<and> old3Vegies st' = old2Vegies st
           \<and> steps st' = (if converged st' then steps st else steps st + 1)"
proof -
  from assms have g: "wf_grid 502 502 (grid st)" and t: "wf_grid 500 500 (tempGrid st)"
    and d: "1 \<le> nx" "nx + 1 < int 502" "nx < int 500" "1 \<le> ny" "ny + 1 < int 502" "ny < int 500"
    by (simp_all add: gol_inv_def in_range_def)
  from d have c: "countVegies (grid st) nx ny = Inr (interior_sum (grid st) nx ny)"
    by (intro countVegies_wf [OF g]) auto
  from performStep_cells [OF g t d] obtain g' t' where
    p: "performStep nx ny (grid st) (tempGrid st) = Inr (g', t')"
    and w: "wf_grid 502 502 g'" "wf_grid 500 500 t'"
    by blast
  from assms(1) show ?thesis
    by (auto simp: gol_body_def c p w Let_def gol_inv_def)
qed

lemma gol_while_total:
  assumes "gol_inv st" "in_range nx ny"
  shows "\<exists>st'. gol_while nx ny maxSteps maxUnchanged st = Inr st' \<and> gol_inv st'
           \<and> (converged st' \<or> vegies st' \<le> 0 \<or> steps st' \<ge> maxSteps)"
  using assms
proof (induction nx ny maxSteps maxUnchanged st rule: gol_while.induct)
  case (1 nx ny maxSteps maxUnchanged st)
  show ?case
  proof (cases "\<not> converged st \<and> vegies st > 0 \<and> steps st < maxSteps")
    case True
    from gol_body_wf [OF "1.prems", of maxUnchanged] obtain st1 where
      b: "gol_body nx ny maxUnchanged st = Inr st1" and i: "gol_inv st1"
      by blast
    from "1.IH" [OF True b i "1.prems"(2)] True b show ?thesis
      by (subst gol_while.simps) simp
  next
    case False
    with "1.prems" show ?thesis
      by (subst gol_while.simps) auto
  qed
qed

lemma wf_replicate: "wf_grid R C (replicate R (replicate C v))"
  by (simp add: wf_grid_def)

lemma gol_inv_init:
  "wf_grid 502 502 g \<Longrightarrow>
   gol_inv \<lparr>grid = g, tempGrid = replicate (nat MAX_Y) (replicate (nat MAX_X) 0),
         steps = s, converged = c, nUnchanged = n,
         oldVegies = o1, old2Vegies = o2, old3Vegies = o3, vegies = v\<rparr>"
  by (simp add: gol_inv_def MAX_X_def MAX_Y_def wf_grid_def)

lemma gameOfLife_total:
  assumes "wf_grid 502 502 g" "in_range nx ny"
  shows "\<exists>g' s v. gameOfLife g nx ny maxSteps maxUnchanged = Inr (g', s, v) \<and> wf_grid 502 502 g'"
proof -
  let ?st = "\<lparr>grid = g, tempGrid = replicate (nat MAX_Y) (replicate (nat MAX_X) 0),
         steps = 1, converged = False, nUnchanged = 0,
         oldVegies = - 1, old2Vegies = - 1, old3Vegies = - 1, vegies = 1\<rparr>"
  have inv: "gol_inv ?st" using assms(1) by (rule gol_inv_init)
  from gol_while_total [OF inv assms(2), of maxSteps maxUnchanged]
  obtain st' where "gol_while nx ny maxSteps maxUnchanged ?st = Inr st'" and "gol_inv st'"
    by blast
  then show ?thesis
    by (simp add: gameOfLife_def gol_inv_def)
qed

lemma interior_sum_zero:
  assumes "\<forall>i \<in> {1..nx}. \<forall>j \<in> {1..ny}. cell g i j = 0"
  shows "interior_sum g nx ny = 0"
  using assms by (simp add: interior_sum_def)

lemma gameOfLife_extinct:
  assumes g: "wf_grid 502 502 g" and d: "in_range nx ny"
    and z: "\<forall>i \<in> {1..nx}. \<forall>j \<in> {1..ny}. cell g i j = 0" and m: "2 \<le> maxSteps"
  shows "\<exists>g'. gameOfLife g nx ny maxSteps maxUnchanged = Inr (g', 2, 0) \<and> wf_grid 502 502 g'"
proof -
  let ?st = "\<lparr>grid = g, tempGrid = replicate (nat MAX_Y) (replicate (nat MAX_X) 0),
         steps = 1, converged = False, nUnchanged = 0,
         oldVegies = - 1, old2Vegies = - 1, old3Vegies = - 1, vegies = 1\<rparr>"
  have inv: "gol_inv ?st" using g by (rule gol_inv_init)
  from gol_body_wf [OF inv d, of maxUnchanged]
  obtain st1 where b: "gol_body nx ny maxUnchanged ?st = Inr st1" and i: "gol_inv st1"
    and v': "vegies st1 = interior_sum (grid ?st) nx ny"
    and c': "converged st1 =
                (converged ?st \<or>
                 ((vegies st1 = oldVegies ?st \<or> vegies st1 = old2Vegies ?st \<or> vegies st1 = old3Vegies ?st)
                  \<and> nUnchanged ?st + 1 \<ge> maxUnchanged))"
    and s': "steps st1 = (if converged st1 then steps ?st else steps ?st + 1)"
    by blast
  from v' have v: "vegies st1 = interior_sum g nx ny" by simp
  from c' have c: "converged st1 = ((vegies st1 = - 1) \<and> 1 \<ge> maxUnchanged)" by simp
  from s' have s: "steps st1 = (if converged st1 then 1 else 2)" by simp
  from v interior_sum_zero [OF z] have v0: "vegies st1 = 0" by simp
  with c s have s2: "steps st1 = 2" by simp
  have "gol_while nx ny maxSteps maxUnchanged ?st = gol_while nx ny maxSteps maxUnchanged st1"
    using m b by (subst gol_while.simps) simp
  also have "\<dots> = Inr st1"
    using v0 by (subst gol_while.simps) simp
  finally show ?thesis
    using i v0 s2 by (simp add: gameOfLife_def gol_inv_def)
qed

lemma cell_replicate:
  "0 \<le> i \<Longrightarrow> i < int R \<Longrightarrow> 0 \<le> j \<Longrightarrow> j < int C \<Longrightarrow> cell (replicate R (replicate C v)) i j = v"
  by (simp add: cell_def nat_less_iff)

subsection \<open>rand1 as an iterated multiplicative generator\<close>

definition lehmer :: "int \<Rightarrow> int" where
  "lehmer k = (if 0 \<le> k then (16807 * k) mod 2147483647
               else - ((- (16807 * k)) mod 2147483647))"

lemma py_int_of_int [simp]: "py_int (real_of_int z) = z"
  by (simp add: py_int_def)

lemma py_int_quotient:
  "py_int (real_of_int k / 2147483647)
     = (if 0 \<le> k then k div 2147483647 else - ((- k) div 2147483647))"
proof -
  have m: "(2147483647::real) = real_of_int 2147483647" by simp
  have f: "\<lfloor>real_of_int a / 2147483647\<rfloor> = a div 2147483647" for a :: int
    unfolding m by (rule floor_divide_of_int_eq)
  have "\<lceil>real_of_int k / 2147483647\<rceil> = - \<lfloor>real_of_int (- k) / 2147483647\<rfloor>"
    by (simp add: ceiling_def)
  then have c: "\<lceil>real_of_int k / 2147483647\<rceil> = - ((- k) div 2147483647)"
    by (simp only: f)
  have s: "(0 \<le> real_of_int k / 2147483647) = (0 \<le> k)"
    by (simp add: zero_le_divide_iff)
  show ?thesis
    unfolding py_int_def s using f [of k] c by simp
qed

lemma trunc_rem:
  "k - m * (if 0 \<le> k then k div m else - ((- k) div m))
     = (if 0 \<le> k then k mod m else - ((- k) mod m))" for k m :: int
proof (cases "0 \<le> k")
  case True
  then show ?thesis by (simp add: minus_mult_div_eq_mod)
next
  case False
  have "(- k) - m * ((- k) div m) = (- k) mod m"
    by (rule minus_mult_div_eq_mod)
  with False show ?thesis by simp
qed

lemma rand1_pass_lehmer: "rand1_pass (i, s) = (lehmer i, real_of_int (lehmer i))"
proof -
  have q: "aa * real_of_int i / mm = real_of_int (16807 * i) / 2147483647"
    by (simp add: aa_def mm_def)
  have r: "aa * real_of_int i - mm * real_of_int z = real_of_int (16807 * i - 2147483647 * z)" for z
    by (simp add: aa_def mm_def)
  have l: "16807 * i - 2147483647 * (if 0 \<le> 16807 * i then 16807 * i div 2147483647
             else - ((- (16807 * i)) div 2147483647)) = lehmer i"
    using trunc_rem [of "16807 * i" 2147483647] by (simp add: lehmer_def)
  show ?thesis
    unfolding rand1_pass_def Let_def fst_conv q py_int_quotient r py_int_of_int l ..
qed

lemma xrange_1_6: "xrange 1 6 = [1, 2, 3, 4, 5]"
  by (simp add: xrange_def upto_rec1)

lemma rand1_lehmer:
  "rand1_passes s = real_of_int (lehmer (lehmer (lehmer (lehmer (lehmer s))))) / 2147483647"
  by (simp add: rand1_passes_def xrange_1_6 rand1_pass_lehmer mm_def)

lemma lehmer_nonneg: "0 \<le> k \<Longrightarrow> 0 \<le> lehmer k \<and> lehmer k < 2147483647"
  by (simp add: lehmer_def)

lemma lehmer_abs: "\<bar>lehmer k\<bar> < 2147483647"
proof (cases "0 \<le> k")
  case True
  then show ?thesis using lehmer_nonneg [of k] by simp
next
  case False
  have "0 \<le> (- (16807 * k)) mod 2147483647" "(- (16807 * k)) mod 2147483647 < 2147483647"
    by simp_all
  with False show ?thesis by (simp add: lehmer_def)
qed

lemma lehmer_dvd:
  assumes "0 < k" "\<not> 2147483647 dvd k"
  shows "0 < lehmer k \<and> \<not> 2147483647 dvd lehmer k"
proof -
  have "k = 1407677000 * (16807 * k) - 2147483647 * (11017 * k)"
    by simp
  then have "2147483647 dvd 16807 * k \<Longrightarrow> 2147483647 dvd k"
    by (metis dvd_diff dvd_mult dvd_triv_left)
  with assms(2) have "\<not> (2147483647::int) dvd 16807 * k" by blast
  then have n: "\<not> 2147483647 dvd (16807 * k) mod 2147483647"
    by (simp add: dvd_mod_iff)
  then have "(16807 * k) mod 2147483647 \<noteq> 0" by auto
  moreover have "0 \<le> (16807 * k) mod 2147483647" by simp
  ultimately have "0 < (16807 * k) mod 2147483647" by linarith
  with n assms(1) show ?thesis by (simp add: lehmer_def)
qed

lemma rand1_nonneg_seed:
  assumes "0 \<le> s"
  shows "0 \<le> rand1_passes s \<and> rand1_passes s < 1"
proof -
  from assms have 1: "0 \<le> lehmer s" by (simp add: lehmer_nonneg)
  then have 2: "0 \<le> lehmer (lehmer s)" by (simp add: lehmer_nonneg)
  then have 3: "0 \<le> lehmer (lehmer (lehmer s))" by (simp add: lehmer_nonneg)
  then have 4: "0 \<le> lehmer (lehmer (lehmer (lehmer s)))" by (simp add: lehmer_nonneg)
  from lehmer_nonneg [OF 4] show ?thesis by (simp add: rand1_lehmer)
qed

lemma rand1_less_1: "rand1_passes s < 1"
  using lehmer_abs [of "lehmer (lehmer (lehmer (lehmer s)))"]
  by (simp add: rand1_lehmer)

lemma rand1_positive:
  assumes "0 < s" "\<not> 2147483647 dvd s"
  shows "0 < rand1_passes s"
proof -
  note a = lehmer_dvd [OF assms]
  note b = lehmer_dvd [OF conjunct1 [OF a] conjunct2 [OF a]]
  note c = lehmer_dvd [OF conjunct1 [OF b] conjunct2 [OF b]]
  note d = lehmer_dvd [OF conjunct1 [OF c] conjunct2 [OF c]]
  note e = lehmer_dvd [OF conjunct1 [OF d] conjunct2 [OF d]]
  from e show ?thesis by (simp add: rand1_lehmer)
qed

lemma rand1_positive_small:
  assumes "0 < s" "s < 2147483647"
  shows "0 < rand1_passes s"
proof (rule rand1_positive [OF assms(1)])
  show "\<not> 2147483647 dvd s"
  proof
    assume "2147483647 dvd s"
    from zdvd_imp_le [OF this assms(1)] assms(2) show False by simp
  qed
qed

lemma rand1_0: "rand1_passes 0 = 0"
  by (simp add: rand1_lehmer lehmer_def)

lemma rand1_minus_1: "rand1_passes (- 1) = - (1144108930 / 2147483647)"
  by (simp add: rand1_lehmer lehmer_def)

subsection \<open>Recording the results\<close>

definition stabilized :: "int \<Rightarrow> (int \<times> int) list \<Rightarrow> (int \<times> int) list" where
  "stabilized maxSteps rs = filter (\<lambda>r. snd r \<noteq> 0 \<and> fst r < maxSteps) rs"



lemma stableAverages_Inr:
  "stableAverages c =
     Inr (if nstable c > 0
          then c\<lparr>totalStepsStable := totalStepsStable c / real_of_int (nstable c),
                  totalVegiesStable := totalVegiesStable c / real_of_int (nstable c)\<rparr>
          else c)"
  by (simp add: stableAverages_def py_truediv_def)

subsection \<open>The grid after one iteration of the loop\<close>


subsection \<open>Seeds and probabilities that the model follows\<close>

definition modelled_seed :: "real \<Rightarrow> int \<Rightarrow> bool" where
  "modelled_seed prob s \<longleftrightarrow>
     16807 * \<bar>s\<bar> < 2 ^ 53
     \<and> (rand1_passes s = prob \<or> 1 / 2 ^ 53 < \<bar>rand1_passes s - prob\<bar>)"

lemma rand1_exact: "16807 * \<bar>s\<bar> < 2 ^ 53 \<Longrightarrow> rand1 s = Inr (rand1_passes s)"
  by (simp add: rand1_def)

lemma rand1_modelled:
  assumes "modelled_seed prob s"
  shows "bind_err (rand1 s) (\<lambda>r. float_gt r prob) = Inr (prob < rand1_passes s)"
  using assms by (auto simp: modelled_seed_def rand1_exact float_gt_def)

lemma initializeGrid_wf:
  assumes g: "wf_grid R C g" and "nx < int R" "ny < int C"
    and m: "\<forall>i \<in> {1..nx}. \<forall>j \<in> {1..ny}. modelled_seed prob (seed + (ny * i + j))"
  shows "initializeGrid g nx ny seed prob
           = Inr (fill (\<lambda>i j. if rand1_passes (seed + (ny * i + j)) > prob then 0 else 1)
                    (xrange 1 (nx + 1)) (xrange 1 (ny + 1)) g)"
proof -
  let ?val = "\<lambda>i j. if rand1_passes (seed + (ny * i + j)) > prob then 0 else (1::int)"
  let ?body = "\<lambda>i j g. let index = ny * i + j; newSeed = seed + index
         in bind_err (rand1 newSeed) (\<lambda>r. bind_err (float_gt r prob) (\<lambda>above.
            if above then set2 g i j 0 else set2 g i j 1))"
  have cellstep: "?body i j s = Inr (upd s i j (?val i j))"
    if "i \<in> {1..nx}" "j \<in> {1..ny}" "wf_grid R C s" for i j s
  proof -
    from m that have ms: "modelled_seed prob (seed + (ny * i + j))" by blast
    then have e: "rand1 (seed + (ny * i + j)) = Inr (rand1_passes (seed + (ny * i + j)))"
      by (simp add: modelled_seed_def rand1_exact)
    from ms have f: "float_gt (rand1_passes (seed + (ny * i + j))) prob
                       = Inr (prob < rand1_passes (seed + (ny * i + j)))"
      by (auto simp: modelled_seed_def float_gt_def)
    from that assms(2,3) have s: "set2 s i j v = Inr (upd s i j v)" for v
      by (intro set2_wf [where R=R and C=C]) auto
    show ?thesis by (simp add: Let_def e f s)
  qed
  have inner: "for_each (xrange 1 (ny + 1)) (?body i) s
                 = Inr (fold (\<lambda>j g. upd g i j (?val i j)) (xrange 1 (ny + 1)) s)
               \<and> wf_grid R C (fold (\<lambda>j g. upd g i j (?val i j)) (xrange 1 (ny + 1)) s)"
    if "i \<in> set (xrange 1 (nx + 1))" "wf_grid R C s" for i s
  proof (rule for_each_pure [where I="wf_grid R C"])
    fix j s' assume "j \<in> set (xrange 1 (ny + 1))" "wf_grid R C s'"
    with that(1) show "?body i j s' = Inr (upd s' i j (?val i j)) \<and> wf_grid R C (upd s' i j (?val i j))"
      using cellstep [of i j s'] by (simp add: wf_upd)
  qed (rule that(2))
  have "for_each (xrange 1 (nx + 1)) (\<lambda>i. for_each (xrange 1 (ny + 1)) (?body i)) g
          = Inr (fold (\<lambda>i. fold (\<lambda>j g. upd g i j (?val i j)) (xrange 1 (ny + 1))) (xrange 1 (nx + 1)) g)
        \<and> wf_grid R C (fold (\<lambda>i. fold (\<lambda>j g. upd g i j (?val i j)) (xrange 1 (ny + 1))) (xrange 1 (nx + 1)) g)"
    using inner g by (rule for_each_pure [where I="wf_grid R C"]) auto
  then show ?thesis
    by (simp add: initializeGrid_def fill_def)
qed

lemma rand1_passes_abs:
  "rand1_passes s = 0 \<or> 1 / 2147483647 \<le> \<bar>rand1_passes s\<bar>"
proof -
  let ?l = "lehmer (lehmer (lehmer (lehmer (lehmer s))))"
  have "?l = 0 \<or> 1 \<le> \<bar>?l\<bar>" by linarith
  then have "real_of_int ?l = 0 \<or> 1 \<le> \<bar>real_of_int ?l\<bar>"
    by (metis of_int_0 of_int_1_le_iff of_int_abs)
  then show ?thesis
    by (auto simp: rand1_lehmer divide_le_cancel)
qed

lemma rand1_passes_below_1: "rand1_passes s \<le> 1 - 1 / 2147483647"
proof -
  let ?l = "lehmer (lehmer (lehmer (lehmer (lehmer s))))"
  from lehmer_abs [of "lehmer (lehmer (lehmer (lehmer s)))"] have "?l \<le> 2147483646" by linarith
  then have "real_of_int ?l \<le> 2147483646" by linarith
  then show ?thesis by (simp add: rand1_lehmer field_simps)
qed

lemma modelled_seed_0:
  assumes "16807 * \<bar>s\<bar> < 2 ^ 53"
  shows "modelled_seed 0 s"
proof -
  have "(1::real) / 2 ^ 53 < 1 / 2147483647" by simp
  with rand1_passes_abs [of s] assms show ?thesis
    by (auto simp: modelled_seed_def)
qed

lemma modelled_seed_1:
  assumes "16807 * \<bar>s\<bar> < 2 ^ 53"
  shows "modelled_seed 1 s"
proof -
  have "(1::real) / 2 ^ 53 < 1 / 2147483647" by simp
  with rand1_passes_below_1 [of s] assms show ?thesis
    by (auto simp: modelled_seed_def abs_if)
qed

subsection \<open>Dimensions that the temporary grid does not hold\<close>

lemma for_each_append:
  "for_each (xs @ ys) body s = bind_err (for_each xs body s) (for_each ys body)"
  by (induction xs arbitrary: s) (simp_all split: sum.splits)

lemma for_each_raises:
  assumes "\<And>x s. x \<in> set xs \<Longrightarrow> I s \<Longrightarrow> \<exists>s'. body x s = Inr s' \<and> I s'"
    and "\<And>s. I s \<Longrightarrow> body y s = Inl e" and "I s"
  shows "for_each (xs @ y # zs) body s = Inl e"
  using assms(1,3)
proof (induction xs arbitrary: s)
  case Nil
  then show ?case by (simp add: assms(2))
next
  case (Cons x xs)
  from Cons.prems(1) [of x s] Cons.prems(2) obtain s' where
    b: "body x s = Inr s'" and i: "I s'" by auto
  have "for_each (xs @ y # zs) body s' = Inl e"
    using Cons.prems(1) i by (intro Cons.IH) auto
  with b show ?case by simp
qed

lemma xrange_split:
  assumes "a \<le> c" "c < b"
  shows "xrange a b = xrange a c @ c # xrange (c + 1) b"
  using upto_split3 [of a c "b - 1"] assms by (simp add: xrange_def)

lemma set2_row_out:
  assumes "wf_grid R C t" "int R \<le> i"
  shows "set2 t i j v = Inl IndexError"
  using assms by (simp add: set2_def py_index_def wf_grid_def)

lemma set2_col_out:
  assumes "wf_grid R C t" "0 \<le> i" "i < int R" "int C \<le> j"
  shows "set2 t i j v = Inl IndexError"
  using assms wf_row [OF assms(1-3)]
  by (simp add: set2_def py_set_def py_index_def)

lemma updateCell_raises:
  assumes g: "wf_grid 502 502 g" and t: "wf_grid 500 500 t"
    and i: "1 \<le> i" "i \<le> 500" and j: "1 \<le> j" "j \<le> 500" and o: "i = 500 \<or> j = 500"
  shows "updateCell g i j t = Inl IndexError"
proof -
  have rd: "get2 g i' j' = Inr (cell g i' j')"
    if "i - 1 \<le> i'" "i' \<le> i + 1" "j - 1 \<le> j'" "j' \<le> j + 1" for i' j'
    using g i j that by (intro get2_wf [where R=502 and C=502]) auto
  have "set2 t i j v = Inl IndexError" for v
  proof (cases "i = 500")
    case True
    with t show ?thesis by (intro set2_row_out [where R=500 and C=500]) auto
  next
    case False
    with o i j t show ?thesis by (intro set2_col_out [where R=500 and C=500]) auto
  qed
  then show ?thesis
    by (simp add: updateCell_def rd Let_def)
qed

lemma updateCell_returns:
  assumes g: "wf_grid 502 502 g" and t: "wf_grid 500 500 t"
    and i: "1 \<le> i" "i \<le> 499" and j: "1 \<le> j" "j \<le> 499"
  shows "\<exists>t'. updateCell g i j t = Inr t' \<and> wf_grid 500 500 t'"
proof -
  from i j have "updateCell g i j t = Inr (upd t i j (spec_rule (cell g i j) (neighbors8 g i j)))"
    by (intro updateCell_wf [OF g t]) auto
  with wf_upd [OF t] show ?thesis by simp
qed

lemma row_raises:
  assumes g: "wf_grid 502 502 g" and t: "wf_grid 500 500 t"
    and i: "1 \<le> i" "i \<le> 500" and ny: "1 \<le> ny" "ny \<le> 500" and o: "i = 500 \<or> ny = 500"
  shows "for_each (xrange 1 (ny + 1)) (updateCell g i) t = Inl IndexError"
proof (cases "i = 500")
  case True
  from ny have x: "xrange 1 (ny + 1) = [] @ 1 # xrange (1 + 1) (ny + 1)"
    using xrange_split [of 1 1 "ny + 1"] by (simp add: xrange_def)
  have "updateCell g i 1 s = Inl IndexError" if "wf_grid 500 500 s" for s
    using True i by (intro updateCell_raises [OF g that]) auto
  then show ?thesis
    unfolding x using t by (intro for_each_raises [where I="wf_grid 500 500"]) auto
next
  case False
  with o i have n: "ny = 500" and i': "i \<le> 499" by auto
  have x: "xrange 1 (ny + 1) = xrange 1 500 @ 500 # xrange (500 + 1) (ny + 1)"
    using xrange_split [of 1 500 "ny + 1"] n by simp
  have ok: "\<exists>s'. updateCell g i j s = Inr s' \<and> wf_grid 500 500 s'"
    if "j \<in> set (xrange 1 500)" "wf_grid 500 500 s" for j s
    using that i i' by (intro updateCell_returns [OF g]) auto
  have bad: "updateCell g i 500 s = Inl IndexError" if "wf_grid 500 500 s" for s
    using i by (intro updateCell_raises [OF g that]) auto
  show ?thesis
    unfolding x using ok bad t by (rule for_each_raises [where I="wf_grid 500 500"])
qed

lemma row_returns:
  assumes g: "wf_grid 502 502 g" and t: "wf_grid 500 500 t"
    and i: "1 \<le> i" "i \<le> 499" and ny: "ny \<le> 499"
  shows "\<exists>t'. for_each (xrange 1 (ny + 1)) (updateCell g i) t = Inr t' \<and> wf_grid 500 500 t'"
proof -
  let ?F = "\<lambda>j t. upd t i j (spec_rule (cell g i j) (neighbors8 g i j))"
  have "for_each (xrange 1 (ny + 1)) (updateCell g i) t = Inr (fold ?F (xrange 1 (ny + 1)) t)
          \<and> wf_grid 500 500 (fold ?F (xrange 1 (ny + 1)) t)"
  proof (rule for_each_pure [where I="wf_grid 500 500"])
    fix j s assume "j \<in> set (xrange 1 (ny + 1))" "wf_grid 500 500 s"
    with i ny show "updateCell g i j s = Inr (?F j s) \<and> wf_grid 500 500 (?F j s)"
      by (simp add: updateCell_wf [OF g, where Rt=500 and Ct=500] wf_upd)
  qed (rule t)
  then show ?thesis by blast
qed

lemma timeStep_raises:
  assumes g: "wf_grid 502 502 g" and t: "wf_grid 500 500 t"
    and nx: "1 \<le> nx" "nx \<le> 500" and ny: "1 \<le> ny" "ny \<le> 500" and o: "nx = 500 \<or> ny = 500"
  shows "timeStep g nx ny t = Inl IndexError"
proof (cases "ny = 500")
  case True
  from nx have x: "xrange 1 (nx + 1) = [] @ 1 # xrange (1 + 1) (nx + 1)"
    using xrange_split [of 1 1 "nx + 1"] by (simp add: xrange_def)
  have "for_each (xrange 1 (ny + 1)) (updateCell g 1) s = Inl IndexError"
    if "wf_grid 500 500 s" for s
    using True ny by (intro row_raises [OF g that]) auto
  then show ?thesis
    unfolding timeStep_def x using t
    by (intro for_each_raises [where I="wf_grid 500 500"]) auto
next
  case False
  with o ny have n: "nx = 500" and ny': "ny \<le> 499" by auto
  have x: "xrange 1 (nx + 1) = xrange 1 500 @ 500 # xrange (500 + 1) (nx + 1)"
    using xrange_split [of 1 500 "nx + 1"] n by simp
  have ok: "\<exists>s'. for_each (xrange 1 (ny + 1)) (updateCell g i) s = Inr s' \<and> wf_grid 500 500 s'"
    if "i \<in> set (xrange 1 500)" "wf_grid 500 500 s" for i s
    using that ny' by (intro row_returns [OF g]) auto
  have bad: "for_each (xrange 1 (ny + 1)) (updateCell g 500) s = Inl IndexError"
    if "wf_grid 500 500 s" for s
    using ny by (intro row_raises [OF g that]) auto
  show ?thesis
    unfolding timeStep_def x using ok bad t by (rule for_each_raises [where I="wf_grid 500 500"])
qed

lemma performStep_raises:
  assumes g: "wf_grid 502 502 g" and t: "wf_grid 500 500 t"
    and nx: "1 \<le> nx" "nx \<le> 500" and ny: "1 \<le> ny" "ny \<le> 500" and o: "nx = 500 \<or> ny = 500"
  shows "performStep nx ny g t = Inl IndexError"
proof -
  have w: "wf_grid 502 502 (wrapped g nx ny)" using g by (rule wf_wrapped)
  have 1: "wrapEdges nx ny g = Inr (wrapped g nx ny)"
    using g nx ny by (intro wrapEdges_wf [where R=502 and C=502]) auto
  show ?thesis
    by (simp add: performStep_def 1 timeStep_raises [OF w t nx ny o])
qed

lemma gol_body_raises:
  assumes i: "gol_inv st" and nx: "1 \<le> nx" "nx \<le> 500" and ny: "1 \<le> ny" "ny \<le> 500"
    and o: "nx = 500 \<or> ny = 500" and c: "\<not> converged st"
    and m: "nUnchanged st + 1 < maxUnchanged
            \<or> (interior_sum (grid st) nx ny \<noteq> oldVegies st
               \<and> interior_sum (grid st) nx ny \<noteq> old2Vegies st
               \<and> interior_sum (grid st) nx ny \<noteq> old3Vegies st)"
  shows "gol_body nx ny maxUnchanged st = Inl IndexError"
proof -
  from i have g: "wf_grid 502 502 (grid st)" and t: "wf_grid 500 500 (tempGrid st)"
    by (simp_all add: gol_inv_def)
  from nx ny have v: "countVegies (grid st) nx ny = Inr (interior_sum (grid st) nx ny)"
    by (intro countVegies_wf [OF g]) auto
  from c m show ?thesis
    by (auto simp: gol_body_def v Let_def performStep_raises [OF g t nx ny o])
qed

lemma gameOfLife_raises:
  assumes g: "wf_grid 502 502 g" and nx: "1 \<le> nx" "nx \<le> 500" and ny: "1 \<le> ny" "ny \<le> 500"
    and o: "nx = 500 \<or> ny = 500" and s: "2 \<le> maxSteps" and u: "2 \<le> maxUnchanged"
  shows "gameOfLife g nx ny maxSteps maxUnchanged = Inl IndexError"
proof -
  let ?st = "\<lparr>grid = g, tempGrid = replicate (nat MAX_Y) (replicate (nat MAX_X) 0),
         steps = 1, converged = False, nUnchanged = 0,
         oldVegies = - 1, old2Vegies = - 1, old3Vegies = - 1, vegies = 1\<rparr>"
  have inv: "gol_inv ?st" using g by (rule gol_inv_init)
  have "gol_body nx ny maxUnchanged ?st = Inl IndexError"
    using u by (intro gol_body_raises [OF inv nx ny o]) auto
  then have "gol_while nx ny maxSteps maxUnchanged ?st = Inl IndexError"
    using s by (subst gol_while.simps) simp
  then show ?thesis by (simp add: gameOfLife_def)
qed

subsection \<open>The workers\<close>

lemma length_xrange: "length (xrange a b) = nat (b - a)"
  by (simp add: xrange_def)

lemma in_range_bounds: "in_range nx ny \<Longrightarrow> nx < int 502 \<and> ny < int 502"
  by (simp add: in_range_def)

lemma worker_grid: "wf_grid 502 502 (replicate (nat (MAX_Y + 2)) (replicate (nat (MAX_X + 2)) 0))"
  by (simp add: MAX_X_def MAX_Y_def wf_grid_def)

lemma initializeGrid_total:
  assumes "wf_grid R C g" "nx < int R" "ny < int C"
    and "\<forall>i \<in> {1..nx}. \<forall>j \<in> {1..ny}. modelled_seed prob (seed + (ny * i + j))"
  shows "\<exists>g'. initializeGrid g nx ny seed prob = Inr g' \<and> wf_grid R C g'"
  using initializeGrid_wf [OF assms] wf_fill [OF assms(1)] by blast

lemma small_seed: "0 < s \<Longrightarrow> s < 2147483647 \<Longrightarrow> 16807 * \<bar>s\<bar> < (2 ^ 53 :: int)"
  by simp

lemma initializeGrid_zero:
  assumes "wf_grid R C g" "nx < int R" "ny < int C"
    and "\<forall>i \<in> {1..nx}. \<forall>j \<in> {1..ny}.
           0 < seed + (ny * i + j) \<and> seed + (ny * i + j) < 2147483647"
  shows "\<exists>g'. initializeGrid g nx ny seed 0 = Inr g' \<and> wf_grid R C g'
           \<and> (\<forall>i \<in> {1..nx}. \<forall>j \<in> {1..ny}. cell g' i j = 0)"
proof -
  let ?val = "\<lambda>i j. if rand1_passes (seed + (ny * i + j)) > 0 then 0 else (1::int)"
  let ?g = "fill ?val (xrange 1 (nx + 1)) (xrange 1 (ny + 1)) g"
  have m: "\<forall>i \<in> {1..nx}. \<forall>j \<in> {1..ny}. modelled_seed 0 (seed + (ny * i + j))"
    using assms(4) by (auto intro!: modelled_seed_0 small_seed)
  have e: "initializeGrid g nx ny seed 0 = Inr ?g"
    using assms(1-3) m by (rule initializeGrid_wf)
  have w: "wf_grid R C ?g" using assms(1) by (rule wf_fill)
  have r: "\<forall>i \<in> set (xrange 1 (nx + 1)). 0 \<le> i \<and> i < int R"
    "\<forall>j \<in> set (xrange 1 (ny + 1)). 0 \<le> j \<and> j < int C"
    using assms(2,3) by auto
  have "cell ?g i j = 0" if "i \<in> {1..nx}" "j \<in> {1..ny}" for i j
  proof -
    from that have b: "0 \<le> i" "0 \<le> j" by auto
    from that assms(4) have "0 < seed + (ny * i + j)" "seed + (ny * i + j) < 2147483647"
      by auto
    then have "0 < rand1_passes (seed + (ny * i + j))" by (rule rand1_positive_small)
    with that show ?thesis by (simp add: cell_fill [OF assms(1) r b])
  qed
  with e w show ?thesis by blast
qed


lemma trial_extinct:
  assumes "in_range nx ny" "wf_grid 502 502 g" "2 \<le> maxSteps"
    and "\<forall>i \<in> {1..nx}. \<forall>j \<in> {1..ny}.
           0 < seed0 * ((myProcess * mySims) - k) + (ny * i + j)
           \<and> seed0 * ((myProcess * mySims) - k) + (ny * i + j) < 2147483647"
  shows "\<exists>g'. trial nx ny maxSteps maxUnchanged 0 seed0 mySims myProcess k g = Inr (g', 2, 0)
           \<and> wf_grid 502 502 g'"
proof -
  note b = in_range_bounds [OF assms(1)]
  from initializeGrid_zero [OF assms(2) conjunct1 [OF b] conjunct2 [OF b] assms(4)]
  obtain g1 where 1: "initializeGrid g nx ny (seed0 * ((myProcess * mySims) - k)) 0 = Inr g1"
    and w1: "wf_grid 502 502 g1" and z: "\<forall>i \<in> {1..nx}. \<forall>j \<in> {1..ny}. cell g1 i j = 0"
    by blast
  from gameOfLife_extinct [OF w1 assms(1) z assms(3), of maxUnchanged] show ?thesis
    by (simp add: trial_def 1)
qed

lemma trial_raises:
  assumes nx: "1 \<le> nx" "nx \<le> 500" and ny: "1 \<le> ny" "ny \<le> 500" and o: "nx = 500 \<or> ny = 500"
    and g: "wf_grid 502 502 g" and s: "2 \<le> maxSteps" and u: "2 \<le> maxUnchanged"
    and m: "\<forall>i \<in> {1..nx}. \<forall>j \<in> {1..ny}.
           modelled_seed prob (seed0 * ((myProcess * mySims) - k) + (ny * i + j))"
  shows "trial nx ny maxSteps maxUnchanged prob seed0 mySims myProcess k g = Inl IndexError"
proof -
  from nx ny have b: "nx < int 502" "ny < int 502" by simp_all
  from initializeGrid_total [OF g b m]
  obtain g1 where 1: "initializeGrid g nx ny (seed0 * ((myProcess * mySims) - k)) prob = Inr g1"
    and w1: "wf_grid 502 502 g1" by blast
  from gameOfLife_raises [OF w1 nx ny o s u] show ?thesis
    by (simp add: trial_def 1)
qed


lemma run_trials_extinct:
  assumes "in_range nx ny" "wf_grid 502 502 g" "2 \<le> maxSteps"
    and "\<forall>k \<in> set ks. \<forall>i \<in> {1..nx}. \<forall>j \<in> {1..ny}.
           0 < seed0 * ((myProcess * mySims) - k) + (ny * i + j)
           \<and> seed0 * ((myProcess * mySims) - k) + (ny * i + j) < 2147483647"
  shows "run_trials (trial nx ny maxSteps maxUnchanged 0 seed0 mySims myProcess) ks g q
           = (q @ replicate (length ks) (2, 0), None)"
  using assms(2,4)
proof (induction ks arbitrary: g q)
  case Nil
  then show ?case by simp
next
  case (Cons k ks)
  from Cons.prems(2) have s: "\<forall>i \<in> {1..nx}. \<forall>j \<in> {1..ny}.
           0 < seed0 * ((myProcess * mySims) - k) + (ny * i + j)
           \<and> seed0 * ((myProcess * mySims) - k) + (ny * i + j) < 2147483647"
    and r: "\<forall>k \<in> set ks. \<forall>i \<in> {1..nx}. \<forall>j \<in> {1..ny}.
           0 < seed0 * ((myProcess * mySims) - k) + (ny * i + j)
           \<and> seed0 * ((myProcess * mySims) - k) + (ny * i + j) < 2147483647"
    by simp_all
  from trial_extinct [OF assms(1) Cons.prems(1) assms(3) s, of maxUnchanged]
  obtain g2 where
    2: "trial nx ny maxSteps maxUnchanged 0 seed0 mySims myProcess k g = Inr (g2, 2, 0)"
    and w2: "wf_grid 502 502 g2" by blast
  from Cons.IH [OF w2 r, of "q @ [(2, 0)]"] show ?case
    by (simp add: 2 replicate_app_Cons_same)
qed


lemma worker_extinct:
  assumes "in_range nx ny" "2 \<le> maxSteps"
    and "\<forall>k \<in> {0..<mySims}. \<forall>i \<in> {1..nx}. \<forall>j \<in> {1..ny}.
           0 < seed0 * ((myProcess * mySims) - k) + (ny * i + j)
           \<and> seed0 * ((myProcess * mySims) - k) + (ny * i + j) < 2147483647"
  shows "worker nx ny maxSteps maxUnchanged 0 seed0 mySims myProcess []
           = (replicate (nat mySims) (2, 0), None)"
proof -
  from assms(3) have s: "\<forall>k \<in> set (xrange 0 mySims). \<forall>i \<in> {1..nx}. \<forall>j \<in> {1..ny}.
           0 < seed0 * ((myProcess * mySims) - k) + (ny * i + j)
           \<and> seed0 * ((myProcess * mySims) - k) + (ny * i + j) < 2147483647"
    by simp
  from run_trials_extinct [OF assms(1) worker_grid assms(2) s, of maxUnchanged "[]"]
  show ?thesis
    unfolding worker_def by (simp add: length_xrange)
qed

lemma worker_raises:
  assumes nx: "1 \<le> nx" "nx \<le> 500" and ny: "1 \<le> ny" "ny \<le> 500" and o: "nx = 500 \<or> ny = 500"
    and s: "2 \<le> maxSteps" and u: "2 \<le> maxUnchanged" and n: "1 \<le> mySims"
    and m: "\<forall>i \<in> {1..nx}. \<forall>j \<in> {1..ny}.
           modelled_seed prob (seed0 * (myProcess * mySims) + (ny * i + j))"
  shows "worker nx ny maxSteps maxUnchanged prob seed0 mySims myProcess [] = ([], Some IndexError)"
proof -
  from n have x: "xrange 0 mySims = 0 # xrange 1 mySims"
    by (simp add: xrange_def upto_rec1)
  from m have m': "\<forall>i \<in> {1..nx}. \<forall>j \<in> {1..ny}.
           modelled_seed prob (seed0 * ((myProcess * mySims) - 0) + (ny * i + j))"
    by simp
  show ?thesis
    by (simp add: worker_def x trial_raises [OF nx ny o worker_grid s u m'])
qed

subsection \<open>main\<close>










definition averaged :: "tally \<Rightarrow> tally" where
  "averaged c =
     (if nstable c > 0
      then c\<lparr>totalStepsStable := totalStepsStable c / real_of_int (nstable c),
              totalVegiesStable := totalVegiesStable c / real_of_int (nstable c)\<rparr>
      else c)"


lemma counters_averaged [simp]:
  "ndied (averaged c) = ndied c" "nunsettled (averaged c) = nunsettled c"
  "nstable (averaged c) = nstable c"
  by (simp_all add: averaged_def)




lemma main_zero_division:
  "main nx ny probability nsims seed0 0 = Inl ZeroDivisionError"
  by (simp add: main_def Let_def py_floordiv_def)




subsection \<open>The scenario of two workers on a grid of zeros\<close>

lemma scenario_seeds:
  "\<forall>k \<in> {0..<2}. \<forall>i \<in> {1..3}. \<forall>j \<in> {1..3}.
     0 < 1 * ((p * 2) - k) + (3 * i + j) \<and> 1 * ((p * 2) - k) + (3 * i + j) < (2147483647::int)"
  if "p = 1 \<or> p = 2" for p :: int
  using that by auto

lemma scenario_worker:
  assumes "p = 1 \<or> p = 2"
  shows "worker 3 3 200 10 0 1 2 p [] = ([(2, 0), (2, 0)], None)"
proof -
  have d: "in_range 3 3" by (simp add: in_range_def)
  have r: "replicate 2 (2::int, 0::int) = [(2, 0), (2, 0)]"
    by (simp add: numeral_2_eq_2)
  from worker_extinct [OF d _ scenario_seeds [OF assms], of 200 10] show ?thesis
    by (simp add: r)
qed

lemma xrange_0_2: "xrange 0 2 = [0, 1]"
  by (simp add: xrange_def upto_rec1)

lemma scenario_startWorkers:
  "startWorkers 3 3 200 10 0 1 2 2 = [([(2, 0), (2, 0)], None), ([(2, 0), (2, 0)], None)]"
  by (simp add: startWorkers_def xrange_0_2 scenario_worker)

lemma scenario_join:
  "joinWorkers [([(2, 0), (2, 0)], None), ([(2, 0), (2, 0)], None)]
     = Inr [[(2, 0), (2, 0)], [(2, 0), (2, 0)]]"
  by (simp add: joinWorkers_def QUEUE_SAFE_def)

lemma scenario_collect:
  "collectResults 200 [[(2, 0), (2, 0)], [(2, 0), (2, 0)]] 2
     = Inr \<lparr>ndied = 4, nunsettled = 0, nstable = 0, totalStepsStable = 0, totalVegiesStable = 0\<rparr>"
  by (simp add: collectResults_def xrange_0_2 py_get_def py_index_def recordResult_def tally0_def)

lemma scenario_main:
  "main 3 3 0 4 1 2
     = Inr \<lparr>final = \<lparr>ndied = 4, nunsettled = 0, nstable = 0,
                      totalStepsStable = 0, totalVegiesStable = 0\<rparr>,
            percentDied = 100, percentUnsettled = 0, percentStabilized = 0\<rparr>"
  by (simp add: main_def STEPS_MAX_def UNCHANGED_MAX_def py_floordiv_def scenario_startWorkers
      scenario_join scenario_collect stableAverages_Inr py_truediv_def)


subsection \<open>Two workers on a grid with 500 rows\<close>

lemma wide_worker:
  assumes "p = 1 \<or> p = 2"
  shows "worker 500 1 200 10 0 1 2 p [] = ([], Some IndexError)"
proof -
  have "modelled_seed 0 (1 * (p * 2) + (1 * i + j))" if "i \<in> {1..500}" "j \<in> {1..1}" for i j :: int
    using that assms by (intro modelled_seed_0) (auto simp: abs_if)
  then show ?thesis
    by (intro worker_raises) auto
qed

lemma wide_startWorkers:
  "startWorkers 500 1 200 10 0 1 2 2 = [([], Some IndexError), ([], Some IndexError)]"
  by (simp add: startWorkers_def xrange_0_2 wide_worker)

lemma wide_main:
  "main 500 1 0 5 1 2
     = Inr \<lparr>final = \<lparr>ndied = 0, nunsettled = 0, nstable = 0,
                      totalStepsStable = 0, totalVegiesStable = 0\<rparr>,
            percentDied = 0, percentUnsettled = 0, percentStabilized = 0\<rparr>"
  by (simp add: main_def STEPS_MAX_def UNCHANGED_MAX_def py_floordiv_def wide_startWorkers
      joinWorkers_def QUEUE_SAFE_def collectResults_def xrange_0_2 py_get_def py_index_def
      tally0_def stableAverages_Inr py_truediv_def)

subsection \<open>A grid with one interior cell\<close>






lemma torus_1: "torus 1 k = 1"
  by (simp add: torus_def)

lemma spec_neighbors_1x1: "spec_neighbors g 1 1 1 1 = 8 * cell g 1 1"
  by (simp add: spec_neighbors_def torus_1)

lemma interior_sum_1x1: "interior_sum g 1 1 = cell g 1 1"
  by (simp add: interior_sum_def)

lemma in_range_1x1: "in_range 1 1"
  by (simp add: in_range_def)





subsection \<open>Probability 1\<close>



subsection \<open>The scenario of one worker and two populations that stabilize\<close>




subsection \<open>The scratch buffer\<close>

lemma performStep_scratch:
  assumes g: "wf_grid 502 502 g" and t: "wf_grid 500 500 t" and r: "in_range nx ny"
  shows "\<exists>g' t'. performStep nx ny g t = Inr (g', t')
           \<and> (\<forall>i \<in> {1..nx}. \<forall>j \<in> {1..ny}.
                 cell t' i j = spec_rule (cell g i j) (spec_neighbors g nx ny i j)
                 \<and> cell g' i j = cell t' i j)"
proof -
  from r have d: "1 \<le> nx" "nx + 1 < int 502" "nx < int 500"
    "1 \<le> ny" "ny + 1 < int 502" "ny < int 500"
    by (simp_all add: in_range_def)
  let ?t = "stepped g nx ny t"
  let ?g = "fill (cell ?t) (xrange 1 (nx + 1)) (xrange 1 (ny + 1)) (wrapped g nx ny)"
  have w: "wf_grid 502 502 (wrapped g nx ny)" using g by (rule wf_wrapped)
  have rg: "\<forall>i \<in> set (xrange 1 (nx + 1)). 0 \<le> i \<and> i < int 502"
    "\<forall>j \<in> set (xrange 1 (ny + 1)). 0 \<le> j \<and> j < int 502"
    and rt: "\<forall>i \<in> set (xrange 1 (nx + 1)). 0 \<le> i \<and> i < int 500"
    "\<forall>j \<in> set (xrange 1 (ny + 1)). 0 \<le> j \<and> j < int 500"
    using d by auto
  have "cell ?t i j = spec_rule (cell g i j) (spec_neighbors g nx ny i j) \<and> cell ?g i j = cell ?t i j"
    if "i \<in> {1..nx}" "j \<in> {1..ny}" for i j
  proof -
    from that have b: "1 \<le> i" "i \<le> nx" "1 \<le> j" "j \<le> ny" "0 \<le> i" "0 \<le> j" by auto
    have 1: "cell ?g i j = cell ?t i j"
      using that by (simp add: cell_fill [OF w rg b(5,6)])
    have "cell ?t i j = spec_rule (cell (wrapped g nx ny) i j) (neighbors8 (wrapped g nx ny) i j)"
      unfolding stepped_def using that by (simp add: cell_fill [OF t rt b(5,6)])
    also have "\<dots> = spec_rule (cell g i j) (spec_neighbors g nx ny i j)"
      using neighbors8_wrapped [OF g d(1,2,4,5) b(1-4)]
        cell_wrapped_interior [OF g d(1,2,4,5) b(1-4)] by simp
    finally show ?thesis using 1 by simp
  qed
  with performStep_wf [OF g t d] show ?thesis by blast
qed

lemma gol_body_cells:
  assumes i: "gol_inv st" and r: "in_range nx ny" and c: "\<not> converged st"
    and m: "nUnchanged st + 1 < maxUnchanged
            \<or> (interior_sum (grid st) nx ny \<noteq> oldVegies st
               \<and> interior_sum (grid st) nx ny \<noteq> old2Vegies st
               \<and> interior_sum (grid st) nx ny \<noteq> old3Vegies st)"
  shows "\<exists>st'. gol_body nx ny maxUnchanged st = Inr st' \<and> \<not> converged st'
           \<and> steps st' = steps st + 1
           \<and> (\<forall>i \<in> {1..nx}. \<forall>j \<in> {1..ny}.
                 cell (tempGrid st') i j
                   = spec_rule (cell (grid st) i j) (spec_neighbors (grid st) nx ny i j)
                 \<and> cell (grid st') i j = cell (tempGrid st') i j)"
proof -
  from i have g: "wf_grid 502 502 (grid st)" and t: "wf_grid 500 500 (tempGrid st)"
    by (simp_all add: gol_inv_def)
  from r have "nx < int 502" "ny < int 502" by (simp_all add: in_range_def)
  then have v: "countVegies (grid st) nx ny = Inr (interior_sum (grid st) nx ny)"
    by (intro countVegies_wf [OF g])
  from performStep_scratch [OF g t r] obtain g' t' where
    p: "performStep nx ny (grid st) (tempGrid st) = Inr (g', t')"
    and q: "\<forall>i \<in> {1..nx}. \<forall>j \<in> {1..ny}.
                 cell t' i j = spec_rule (cell (grid st) i j) (spec_neighbors (grid st) nx ny i j)
                 \<and> cell g' i j = cell t' i j"
    by blast
  from c m q show ?thesis
    by (auto simp: gol_body_def v p Let_def)
qed

lemma zero_grid: "wf_grid 502 502 (replicate 502 (replicate 502 0))"
  by (rule wf_replicate)

lemma zero_temp: "wf_grid 500 500 (replicate 500 (replicate 500 0))"
  by (rule wf_replicate)

lemma cell_one_cell:
  "cell (upd (replicate 502 (replicate 502 0)) 1 1 v) 1 1 = v"
  using cell_upd [OF zero_grid, of 1 1 1 1 v] by simp

lemma wf_one_cell: "wf_grid 502 502 (upd (replicate 502 (replicate 502 0)) 1 1 v)"
  using zero_grid by (rule wf_upd)

section \<open>The claims\<close>

text \<open>
  C10. If \<open>maxSteps \<le> 1\<close>, \<open>gameOfLife\<close> returns \<open>steps = 1\<close> and
  \<open>finalVegetation = 1\<close> without reading the grid, which it leaves as it is: the vegetation
  returned is the initial value of the local variable, not the total of the grid, so even a
  grid of zeros is not reported as extinct.
\<close>

theorem gameOfLife_step_cap_sentinel:
  assumes "maxSteps \<le> 1"
  shows "gameOfLife g nx ny maxSteps maxUnchanged = Inr (g, 1, 1)"
  using assms by (simp add: gameOfLife_def gol_while.simps)

theorem gameOfLife_step_cap_sentinel_witness:
  "(1::int) \<le> 1 \<and>
   gameOfLife (replicate 502 (replicate 502 0)) 3 3 1 10
     = Inr (replicate 502 (replicate 502 0), 1, 1)"
  using gameOfLife_step_cap_sentinel [of 1 "replicate 502 (replicate 502 0)" 3 3 10]
  by simp

text \<open>
  C1, as amended. On a grid whose interior is all zeros (dimensions \<open>1 \<le> nx, ny \<le> 499\<close>,
  \<open>maxSteps \<ge> 2\<close>), \<open>gameOfLife\<close> runs one iteration of its loop, which finds no vegetation
  and still performs the time step and increments the step counter, and returns
  \<open>steps = 2\<close> and \<open>finalVegetation = 0\<close>. In the scenario \<open>nx = ny = 3\<close>, probability 0,
  \<open>seed0 = 1\<close>, \<open>nsims = 4\<close>, \<open>numProcesses = 2\<close>, each of the two workers ends without an
  exception and leaves \<open>(2, 0)\<close> on its queue for both of its trials, and \<open>main\<close> reports
  100 percent died out and 0 percent unsettled and stabilized.
\<close>

theorem gameOfLife_extinct_in_two_steps:
  assumes "wf_grid 502 502 g" and "in_range nx ny"
    and "\<forall>i \<in> {1..nx}. \<forall>j \<in> {1..ny}. cell g i j = 0" and "2 \<le> maxSteps"
  shows "(\<exists>g'. gameOfLife g nx ny maxSteps maxUnchanged = Inr (g', 2, 0))
    \<and> worker 3 3 STEPS_MAX UNCHANGED_MAX 0 1 2 1 [] = ([(2, 0), (2, 0)], None)
    \<and> worker 3 3 STEPS_MAX UNCHANGED_MAX 0 1 2 2 [] = ([(2, 0), (2, 0)], None)
    \<and> main 3 3 0 4 1 2
        = Inr \<lparr>final = \<lparr>ndied = 4, nunsettled = 0, nstable = 0,
                         totalStepsStable = 0, totalVegiesStable = 0\<rparr>,
               percentDied = 100, percentUnsettled = 0, percentStabilized = 0\<rparr>"
proof -
  from gameOfLife_extinct [OF assms]
  have 1: "\<exists>g'. gameOfLife g nx ny maxSteps maxUnchanged = Inr (g', 2, 0)"
    by blast
  from 1 scenario_main show ?thesis
    by (simp add: STEPS_MAX_def UNCHANGED_MAX_def scenario_worker)
qed

theorem gameOfLife_extinct_in_two_steps_witness:
  "wf_grid 502 502 (replicate 502 (replicate 502 0)) \<and> in_range 3 3 \<and> (2::int) \<le> 200
   \<and> (\<exists>g'. gameOfLife (replicate 502 (replicate 502 0)) 3 3 200 10 = Inr (g', 2, 0))"
proof -
  have d: "in_range 3 3" by (simp add: in_range_def)
  have z: "\<forall>i \<in> {1..3}. \<forall>j \<in> {1..3}. cell (replicate 502 (replicate 502 0)) i j = 0"
    by (auto intro!: cell_replicate [where R=502 and C=502])
  have m: "(2::int) \<le> 200" by simp
  from gameOfLife_extinct_in_two_steps [OF zero_grid d z m, of 10] zero_grid d m
  show ?thesis by blast
qed

text \<open>
  The claim as it was stated has \<open>steps = 1\<close>; on the grid of zeros of the scenario the
  function returns \<open>steps = 2\<close>.
\<close>

theorem gameOfLife_zero_grid_steps:
  "map_sum id snd (gameOfLife (replicate 502 (replicate 502 0)) 3 3 200 10) = Inr (2, 0)"
proof -
  have d: "in_range 3 3" by (simp add: in_range_def)
  have z: "\<forall>i \<in> {1..3}. \<forall>j \<in> {1..3}. cell (replicate 502 (replicate 502 0)) i j = 0"
    by (auto intro!: cell_replicate [where R=502 and C=502])
  from gameOfLife_extinct [OF zero_grid d z, of 200 10] obtain g' where
    "gameOfLife (replicate 502 (replicate 502 0)) 3 3 200 10 = Inr (g', 2, 0)"
    by auto
  then show ?thesis by simp
qed




text \<open>
  C3. The claim is that \<open>nsims - nsims mod numProcesses\<close> trials are run and classified.
  \<open>main\<close> accepts the dimension 500 (line 251), for which the time step writes to
  \<open>tempGrid[500]\<close> in a list of 500: with \<open>nx = 500\<close>, \<open>ny = 1\<close>, probability 0,
  \<open>nsims = 5\<close>, \<open>seed0 = 1\<close> and two processes, each worker is given two trials, raises
  \<open>IndexError\<close> in its first one and leaves an empty queue; \<open>main\<close> classifies no trial and
  reports three counters and three percentages of 0. For the runs that \<open>followed\<close>
  describes, lemma \<open>main_total\<close> has what the claim says.
\<close>

theorem main_classifies_nothing_at_500:
  "worker 500 1 STEPS_MAX UNCHANGED_MAX 0 1 2 1 [] = ([], Some IndexError)
   \<and> worker 500 1 STEPS_MAX UNCHANGED_MAX 0 1 2 2 [] = ([], Some IndexError)
   \<and> main 500 1 0 5 1 2
       = Inr \<lparr>final = \<lparr>ndied = 0, nunsettled = 0, nstable = 0,
                        totalStepsStable = 0, totalVegiesStable = 0\<rparr>,
              percentDied = 0, percentUnsettled = 0, percentStabilized = 0\<rparr>"
  using wide_main by (simp add: STEPS_MAX_def UNCHANGED_MAX_def wide_worker)

text \<open>
  C4. The claim is that for \<open>1 \<le> nx, ny \<le> 500\<close> every index is within the lists.
  \<open>tempGrid\<close> has 500 rows of 500 cells, with indices 0 to 499, and the time step writes
  to \<open>tempGrid[i][j]\<close> for \<open>i\<close> up to \<open>nx\<close> and \<open>j\<close> up to \<open>ny\<close>. On the grid of a worker
  (502 rows of 502 cells), with \<open>maxSteps \<ge> 2\<close> and \<open>maxUnchanged \<ge> 2\<close>, so that the first
  iteration performs the time step: for dimensions up to 499 \<open>gameOfLife\<close> returns, and
  with \<open>nx = 500\<close> or \<open>ny = 500\<close> it raises \<open>IndexError\<close>.
\<close>

theorem gameOfLife_index_error:
  assumes "wf_grid 502 502 g" and "1 \<le> nx" "nx \<le> 500" and "1 \<le> ny" "ny \<le> 500"
    and "2 \<le> maxSteps" and "2 \<le> maxUnchanged"
  shows "(nx \<le> 499 \<and> ny \<le> 499 \<longrightarrow>
            (\<exists>g' s v. gameOfLife g nx ny maxSteps maxUnchanged = Inr (g', s, v)))
       \<and> (nx = 500 \<or> ny = 500 \<longrightarrow>
            gameOfLife g nx ny maxSteps maxUnchanged = Inl IndexError)"
proof (intro conjI impI)
  assume "nx \<le> 499 \<and> ny \<le> 499"
  with assms(2,4) have "in_range nx ny" by (simp add: in_range_def)
  from gameOfLife_total [OF assms(1) this, of maxSteps maxUnchanged]
  show "\<exists>g' s v. gameOfLife g nx ny maxSteps maxUnchanged = Inr (g', s, v)" by blast
next
  assume "nx = 500 \<or> ny = 500"
  with assms show "gameOfLife g nx ny maxSteps maxUnchanged = Inl IndexError"
    by (intro gameOfLife_raises)
qed

theorem gameOfLife_index_error_witness:
  "wf_grid 502 502 (replicate 502 (replicate 502 0))
   \<and> (\<exists>g' s v. gameOfLife (replicate 502 (replicate 502 0)) 3 3 200 10 = Inr (g', s, v))
   \<and> gameOfLife (replicate 502 (replicate 502 0)) 500 1 200 10 = Inl IndexError
   \<and> gameOfLife (replicate 502 (replicate 502 0)) 1 500 200 10 = Inl IndexError"
  using gameOfLife_index_error [OF zero_grid, of 3 3 200 10]
    gameOfLife_index_error [OF zero_grid, of 500 1 200 10]
    gameOfLife_index_error [OF zero_grid, of 1 500 200 10] zero_grid
  by simp

text \<open>
  C5. The claim is that \<open>rand1\<close> of every integer seed lies in \<open>[0, 1)\<close>, negative
  seeds included, as the comment of the function says ("a float between 0 and 1"). The
  function is deterministic, and \<open>rand1_nonneg_seed\<close> gives the interval for every seed
  \<open>\<ge> 0\<close> that the model follows; but the truncation toward zero keeps the sign of a
  negative seed through the five passes, and the result is negative: \<open>rand1 (-1)\<close> is
  \<open>- 1144108930 / 2147483647\<close>.
\<close>

theorem rand1_negative_seed:
  "rand1 (- 1) = Inr (- (1144108930 / 2147483647))
   \<and> (\<exists>r. rand1 (- 1) = Inr r \<and> r < 0)"
  by (simp add: rand1_def rand1_minus_1)

text \<open>
  C6. The claim is the update rule for every time step. Take an iteration of the loop
  of \<open>gameOfLife\<close> that performs the time step (the run has not converged, and the total
  does not bring the counter of unchanged steps to \<open>maxUnchanged\<close>), on the grid of a
  worker. For dimensions up to 499 it returns, and every interior cell has been updated
  from its value \<open>v\<close> and the sum \<open>n\<close> of its eight neighbours on the torus, both taken from
  the grid before the step: if \<open>n \<ge> 25\<close> or \<open>n \<le> 3\<close> the cell becomes \<open>max 0 (v - 1)\<close>, else
  if \<open>n \<le> 15\<close> it becomes \<open>min 10 (v + 1)\<close>, else it is unchanged (\<open>spec_rule\<close>,
  \<open>spec_neighbors\<close>); the new values are in \<open>tempGrid\<close> and the grid holds a copy of them.
  With \<open>nx = 500\<close> or \<open>ny = 500\<close>, which \<open>main\<close> accepts, the step raises \<open>IndexError\<close> when
  it writes to \<open>tempGrid\<close>, which has 500 rows of 500 cells.
\<close>

theorem gol_body_update_rule:
  assumes "gol_inv st" and "\<not> converged st"
    and "1 \<le> nx" "nx \<le> 500" and "1 \<le> ny" "ny \<le> 500"
    and "nUnchanged st + 1 < maxUnchanged
         \<or> (interior_sum (grid st) nx ny \<noteq> oldVegies st
            \<and> interior_sum (grid st) nx ny \<noteq> old2Vegies st
            \<and> interior_sum (grid st) nx ny \<noteq> old3Vegies st)"
  shows "(nx \<le> 499 \<and> ny \<le> 499 \<longrightarrow>
            (\<exists>st'. gol_body nx ny maxUnchanged st = Inr st' \<and> \<not> converged st'
               \<and> steps st' = steps st + 1
               \<and> (\<forall>i \<in> {1..nx}. \<forall>j \<in> {1..ny}.
                     cell (tempGrid st') i j
                       = spec_rule (cell (grid st) i j) (spec_neighbors (grid st) nx ny i j)
                     \<and> cell (grid st') i j = cell (tempGrid st') i j)))
       \<and> (nx = 500 \<or> ny = 500 \<longrightarrow> gol_body nx ny maxUnchanged st = Inl IndexError)"
proof (intro conjI impI)
  assume "nx \<le> 499 \<and> ny \<le> 499"
  with assms(3,5) have r: "in_range nx ny" by (simp add: in_range_def)
  from assms(1) r assms(2,7)
  show "\<exists>st'. gol_body nx ny maxUnchanged st = Inr st' \<and> \<not> converged st'
               \<and> steps st' = steps st + 1
               \<and> (\<forall>i \<in> {1..nx}. \<forall>j \<in> {1..ny}.
                     cell (tempGrid st') i j
                       = spec_rule (cell (grid st) i j) (spec_neighbors (grid st) nx ny i j)
                     \<and> cell (grid st') i j = cell (tempGrid st') i j)"
    by (rule gol_body_cells)
next
  assume "nx = 500 \<or> ny = 500"
  with assms show "gol_body nx ny maxUnchanged st = Inl IndexError"
    by (intro gol_body_raises)
qed

theorem gol_body_update_rule_witness:
  "gol_inv \<lparr>grid = upd (replicate 502 (replicate 502 0)) 1 1 1,
            tempGrid = replicate 500 (replicate 500 0),
            steps = 1, converged = False, nUnchanged = 0,
            oldVegies = - 1, old2Vegies = - 1, old3Vegies = - 1, vegies = 1\<rparr>
   \<and> (\<exists>st'. gol_body 1 1 10
          \<lparr>grid = upd (replicate 502 (replicate 502 0)) 1 1 1,
           tempGrid = replicate 500 (replicate 500 0),
           steps = 1, converged = False, nUnchanged = 0,
           oldVegies = - 1, old2Vegies = - 1, old3Vegies = - 1, vegies = 1\<rparr> = Inr st'
        \<and> steps st' = 2 \<and> cell (tempGrid st') 1 1 = 2 \<and> cell (grid st') 1 1 = 2)
   \<and> gol_body 500 1 10
          \<lparr>grid = upd (replicate 502 (replicate 502 0)) 1 1 1,
           tempGrid = replicate 500 (replicate 500 0),
           steps = 1, converged = False, nUnchanged = 0,
           oldVegies = - 1, old2Vegies = - 1, old3Vegies = - 1, vegies = 1\<rparr>
       = Inl IndexError"
proof -
  let ?st = "\<lparr>grid = upd (replicate 502 (replicate 502 0)) 1 1 1,
            tempGrid = replicate 500 (replicate 500 0),
            steps = 1, converged = False, nUnchanged = 0,
            oldVegies = - 1, old2Vegies = - 1, old3Vegies = - 1, vegies = 1\<rparr>"
  have i: "gol_inv ?st" by (simp add: gol_inv_def wf_one_cell zero_temp)
  have c: "\<not> converged ?st" by simp
  have m: "nUnchanged ?st + 1 < 10
         \<or> (interior_sum (grid ?st) nx ny \<noteq> oldVegies ?st
            \<and> interior_sum (grid ?st) nx ny \<noteq> old2Vegies ?st
            \<and> interior_sum (grid ?st) nx ny \<noteq> old3Vegies ?st)" for nx ny
    by simp
  from gol_body_update_rule [OF i c _ _ _ _ m, of 1 1] obtain st' where
    b: "gol_body 1 1 10 ?st = Inr st'" and s: "steps st' = steps ?st + 1"
    and r: "\<forall>i \<in> {1..1}. \<forall>j \<in> {1..1}.
               cell (tempGrid st') i j
                 = spec_rule (cell (grid ?st) i j) (spec_neighbors (grid ?st) 1 1 i j)
               \<and> cell (grid st') i j = cell (tempGrid st') i j"
    by auto
  from r have "cell (tempGrid st') 1 1 = 2" "cell (grid st') 1 1 = 2"
    by (simp_all add: spec_neighbors_1x1 cell_one_cell spec_rule_def)
  with b s have 1: "\<exists>st'. gol_body 1 1 10 ?st = Inr st'
        \<and> steps st' = 2 \<and> cell (tempGrid st') 1 1 = 2 \<and> cell (grid st') 1 1 = 2"
    by simp
  from gol_body_update_rule [OF i c _ _ _ _ m, of 500 1]
  have 2: "gol_body 500 1 10 ?st = Inl IndexError" by simp
  from i 1 2 show ?thesis by blast
qed

text \<open>
  C7, as amended. One iteration of the loop on a grid with dimensions
  \<open>1 \<le> nx, ny \<le> 499\<close>, entered with \<open>converged\<close> false: the total of the interior is
  compared with the totals of the three previous iterations; on a match the counter of
  unchanged steps is incremented, otherwise it is reset to 0; \<open>converged\<close> is set exactly
  when a match brings the counter to \<open>maxUnchanged\<close> or more, which for
  \<open>maxUnchanged \<ge> 1\<close> is exactly when the counter is at least \<open>maxUnchanged\<close>; the window of
  three totals is shifted; the step counter is incremented unless the run has converged.
  The loop goes on only while the run has not converged, the vegetation is positive and
  \<open>steps < maxSteps\<close>, and it returns with one of the three failing.
\<close>

theorem gol_body_convergence:
  assumes "gol_inv st" and "in_range nx ny" and "\<not> converged st"
  shows "\<exists>st'. gol_body nx ny maxUnchanged st = Inr st'
           \<and> vegies st' = interior_sum (grid st) nx ny
           \<and> nUnchanged st' =
                (if vegies st' = oldVegies st \<or> vegies st' = old2Vegies st \<or> vegies st' = old3Vegies st
                 then nUnchanged st + 1 else 0)
           \<and> (converged st' \<longleftrightarrow>
                 (vegies st' = oldVegies st \<or> vegies st' = old2Vegies st \<or> vegies st' = old3Vegies st)
                 \<and> nUnchanged st' \<ge> maxUnchanged)
           \<and> (1 \<le> maxUnchanged \<longrightarrow> (converged st' \<longleftrightarrow> nUnchanged st' \<ge> maxUnchanged))
           \<and> oldVegies st' = vegies st' \<and> old2Vegies st' = oldVegies st
           \<and> old3Vegies st' = old2Vegies st
           \<and> steps st' = (if converged st' then steps st else steps st + 1)
           \<and> gol_while nx ny maxSteps maxUnchanged st =
                (if vegies st > 0 \<and> steps st < maxSteps
                 then gol_while nx ny maxSteps maxUnchanged st' else Inr st)
           \<and> (\<exists>st''. gol_while nx ny maxSteps maxUnchanged st = Inr st''
                  \<and> (converged st'' \<or> vegies st'' \<le> 0 \<or> steps st'' \<ge> maxSteps))"
proof -
  from gol_body_wf [OF assms(1,2), of maxUnchanged] obtain st' where
    b: "gol_body nx ny maxUnchanged st = Inr st'"
    and v: "vegies st' = interior_sum (grid st) nx ny"
    and n: "nUnchanged st' =
                (if vegies st' = oldVegies st \<or> vegies st' = old2Vegies st \<or> vegies st' = old3Vegies st
                 then nUnchanged st + 1 else 0)"
    and c: "converged st' =
                (converged st \<or>
                 ((vegies st' = oldVegies st \<or> vegies st' = old2Vegies st \<or> vegies st' = old3Vegies st)
                  \<and> nUnchanged st + 1 \<ge> maxUnchanged))"
    and h: "oldVegies st' = vegies st'" "old2Vegies st' = oldVegies st"
      "old3Vegies st' = old2Vegies st"
    and s: "steps st' = (if converged st' then steps st else steps st + 1)"
    by blast
  from c n assms(3) have c1: "converged st' \<longleftrightarrow>
                 (vegies st' = oldVegies st \<or> vegies st' = old2Vegies st \<or> vegies st' = old3Vegies st)
                 \<and> nUnchanged st' \<ge> maxUnchanged"
    by auto
  from c1 n have c2: "1 \<le> maxUnchanged \<longrightarrow> (converged st' \<longleftrightarrow> nUnchanged st' \<ge> maxUnchanged)"
    by auto
  have w: "gol_while nx ny maxSteps maxUnchanged st =
                (if vegies st > 0 \<and> steps st < maxSteps
                 then gol_while nx ny maxSteps maxUnchanged st' else Inr st)"
    using assms(3) b by (subst gol_while.simps) simp
  from gol_while_total [OF assms(1,2), of maxSteps maxUnchanged]
  have e: "\<exists>st''. gol_while nx ny maxSteps maxUnchanged st = Inr st''
                  \<and> (converged st'' \<or> vegies st'' \<le> 0 \<or> steps st'' \<ge> maxSteps)"
    by blast
  from b v n c1 c2 h s w e show ?thesis by blast
qed

theorem gol_body_convergence_witness:
  "gol_inv \<lparr>grid = upd (replicate 502 (replicate 502 0)) 1 1 2,
            tempGrid = replicate 500 (replicate 500 0),
            steps = 12, converged = False, nUnchanged = 9,
            oldVegies = 2, old2Vegies = 2, old3Vegies = 2, vegies = 2\<rparr>
   \<and> in_range 1 1
   \<and> (\<exists>st'. gol_body 1 1 10
          \<lparr>grid = upd (replicate 502 (replicate 502 0)) 1 1 2,
           tempGrid = replicate 500 (replicate 500 0),
           steps = 12, converged = False, nUnchanged = 9,
           oldVegies = 2, old2Vegies = 2, old3Vegies = 2, vegies = 2\<rparr> = Inr st'
        \<and> vegies st' = 2 \<and> nUnchanged st' = 10 \<and> converged st' \<and> steps st' = 12)
   \<and> (\<exists>st'. gol_body 1 1 10
          \<lparr>grid = upd (replicate 502 (replicate 502 0)) 1 1 2,
           tempGrid = replicate 500 (replicate 500 0),
           steps = 3, converged = False, nUnchanged = 4,
           oldVegies = 1, old2Vegies = 5, old3Vegies = 7, vegies = 1\<rparr> = Inr st'
        \<and> vegies st' = 2 \<and> nUnchanged st' = 0 \<and> \<not> converged st' \<and> steps st' = 4
        \<and> oldVegies st' = 2 \<and> old2Vegies st' = 1 \<and> old3Vegies st' = 5)"
proof -
  let ?g = "upd (replicate 502 (replicate 502 0)) 1 1 2"
  let ?a = "\<lparr>grid = ?g, tempGrid = replicate 500 (replicate 500 0),
            steps = 12, converged = False, nUnchanged = 9,
            oldVegies = 2, old2Vegies = 2, old3Vegies = 2, vegies = 2\<rparr>"
  let ?b = "\<lparr>grid = ?g, tempGrid = replicate 500 (replicate 500 0),
            steps = 3, converged = False, nUnchanged = 4,
            oldVegies = 1, old2Vegies = 5, old3Vegies = 7, vegies = 1\<rparr>"
  have ia: "gol_inv ?a" and ib: "gol_inv ?b"
    by (simp_all add: gol_inv_def wf_one_cell zero_temp)
  have v: "interior_sum ?g 1 1 = 2" by (simp add: interior_sum_1x1 cell_one_cell)
  from gol_body_convergence [OF ia in_range_1x1, of 10 200] obtain sa where
    a: "gol_body 1 1 10 ?a = Inr sa"
    and va: "vegies sa = interior_sum (grid ?a) 1 1"
    and na: "nUnchanged sa =
                (if vegies sa = oldVegies ?a \<or> vegies sa = old2Vegies ?a \<or> vegies sa = old3Vegies ?a
                 then nUnchanged ?a + 1 else 0)"
    and ca: "1 \<le> (10::int) \<longrightarrow> (converged sa \<longleftrightarrow> nUnchanged sa \<ge> 10)"
    and sa: "steps sa = (if converged sa then steps ?a else steps ?a + 1)"
    by auto
  from va v have va': "vegies sa = 2" by simp
  with na have na': "nUnchanged sa = 10" by simp
  with ca have ca': "converged sa" by simp
  with sa have sa': "steps sa = 12" by simp
  from gol_body_convergence [OF ib in_range_1x1, of 10 200] obtain sb where
    b: "gol_body 1 1 10 ?b = Inr sb"
    and vb: "vegies sb = interior_sum (grid ?b) 1 1"
    and nb: "nUnchanged sb =
                (if vegies sb = oldVegies ?b \<or> vegies sb = old2Vegies ?b \<or> vegies sb = old3Vegies ?b
                 then nUnchanged ?b + 1 else 0)"
    and cb: "1 \<le> (10::int) \<longrightarrow> (converged sb \<longleftrightarrow> nUnchanged sb \<ge> 10)"
    and hb: "oldVegies sb = vegies sb" "old2Vegies sb = oldVegies ?b"
      "old3Vegies sb = old2Vegies ?b"
    and sb: "steps sb = (if converged sb then steps ?b else steps ?b + 1)"
    by auto
  from vb v have vb': "vegies sb = 2" by simp
  with nb have nb': "nUnchanged sb = 0" by simp
  with cb have cb': "\<not> converged sb" by simp
  with sb have sb': "steps sb = 4" by simp
  from hb vb' have hb': "oldVegies sb = 2" "old2Vegies sb = 1" "old3Vegies sb = 5" by simp_all
  from a va' na' ca' sa' have 1: "\<exists>st'. gol_body 1 1 10 ?a = Inr st'
        \<and> vegies st' = 2 \<and> nUnchanged st' = 10 \<and> converged st' \<and> steps st' = 12"
    by blast
  from b vb' nb' cb' sb' hb' have 2: "\<exists>st'. gol_body 1 1 10 ?b = Inr st'
        \<and> vegies st' = 2 \<and> nUnchanged st' = 0 \<and> \<not> converged st' \<and> steps st' = 4
        \<and> oldVegies st' = 2 \<and> old2Vegies st' = 1 \<and> old3Vegies st' = 5"
    by blast
  from ia in_range_1x1 1 2 show ?thesis by blast
qed

text \<open>
  The claim as it was stated has the run converged exactly when the counter of unchanged
  steps reaches \<open>maxUnchanged\<close>. The counter is compared with \<open>maxUnchanged\<close> only after an
  increment: with \<open>maxUnchanged = 0\<close>, the first iteration on the grid of zeros of the
  scenario finds no match, leaves the counter at 0, which is \<open>maxUnchanged\<close>, and does not
  set \<open>converged\<close>.
\<close>

theorem gol_body_streak_not_converged:
  "map_sum id (\<lambda>st. (nUnchanged st, converged st))
     (gol_body 3 3 0
        \<lparr>grid = replicate 502 (replicate 502 0), tempGrid = replicate 500 (replicate 500 0),
         steps = 1, converged = False, nUnchanged = 0,
         oldVegies = - 1, old2Vegies = - 1, old3Vegies = - 1, vegies = 1\<rparr>)
   = Inr (0, False)"
proof -
  let ?st = "\<lparr>grid = replicate 502 (replicate 502 0), tempGrid = replicate 500 (replicate 500 0),
         steps = 1, converged = False, nUnchanged = 0,
         oldVegies = - 1, old2Vegies = - 1, old3Vegies = - 1, vegies = 1\<rparr>"
  have i: "gol_inv ?st" by (simp add: gol_inv_def zero_grid zero_temp)
  have d: "in_range 3 3" by (simp add: in_range_def)
  have z: "interior_sum (grid ?st) 3 3 = 0"
    by (rule interior_sum_zero) (auto intro!: cell_replicate [where R=502 and C=502])
  from gol_body_wf [OF i d, of 0] obtain st' where
    b: "gol_body 3 3 0 ?st = Inr st'"
    and v: "vegies st' = interior_sum (grid ?st) 3 3"
    and n: "nUnchanged st' =
                (if vegies st' = oldVegies ?st \<or> vegies st' = old2Vegies ?st \<or> vegies st' = old3Vegies ?st
                 then nUnchanged ?st + 1 else 0)"
    and c: "converged st' =
                (converged ?st \<or>
                 ((vegies st' = oldVegies ?st \<or> vegies st' = old2Vegies ?st \<or> vegies st' = old3Vegies ?st)
                  \<and> nUnchanged ?st + 1 \<ge> 0))"
    by blast
  from v z have "vegies st' = 0" by simp
  with n c have "nUnchanged st' = 0" "\<not> converged st'" by simp_all
  with b show ?thesis by simp
qed

text \<open>
  C8, as amended. Take a grid of \<open>R\<close> rows and \<open>C\<close> columns with \<open>nx < R\<close> and \<open>ny < C\<close>,
  and a seed and a probability such that every cell seed \<open>s = seed + ny * i + j\<close> has
  \<open>16807 * |s| < 2^53\<close> and \<open>rand1 s\<close> equal to the probability or more than \<open>2^-53\<close> away
  from it (\<open>modelled_seed\<close>; for the probabilities 0 and 1 the bound on \<open>s\<close> is enough, by
  \<open>modelled_seed_0\<close> and \<open>modelled_seed_1\<close>). Then \<open>initializeGrid\<close> returns; every interior
  cell \<open>(i, j)\<close> is 1 if \<open>rand1 s \<le> prob\<close> and 0 otherwise, and the cells outside the
  interior are untouched. For probability 1 every interior cell is 1. For probability 0
  every interior cell is 0 when every cell seed lies strictly between 0 and 2147483647.
\<close>

theorem initializeGrid_cells:
  assumes "wf_grid R C g" and "nx < int R" and "ny < int C"
    and "\<forall>i \<in> {1..nx}. \<forall>j \<in> {1..ny}. modelled_seed prob (seed + (ny * i + j))"
  shows "\<exists>g'. initializeGrid g nx ny seed prob = Inr g' \<and> wf_grid R C g'
           \<and> (\<forall>i \<in> {1..nx}. \<forall>j \<in> {1..ny}. \<exists>r.
                 rand1 (seed + (ny * i + j)) = Inr r
                 \<and> cell g' i j = (if r \<le> prob then 1 else 0))
           \<and> (\<forall>i j. 0 \<le> i \<and> 0 \<le> j \<and> \<not> (1 \<le> i \<and> i \<le> nx \<and> 1 \<le> j \<and> j \<le> ny)
                 \<longrightarrow> cell g' i j = cell g i j)
           \<and> (prob = 1 \<longrightarrow> (\<forall>i \<in> {1..nx}. \<forall>j \<in> {1..ny}. cell g' i j = 1))
           \<and> (prob = 0 \<and> (\<forall>i \<in> {1..nx}. \<forall>j \<in> {1..ny}.
                            0 < seed + (ny * i + j) \<and> seed + (ny * i + j) < 2147483647)
                \<longrightarrow> (\<forall>i \<in> {1..nx}. \<forall>j \<in> {1..ny}. cell g' i j = 0))"
proof -
  let ?val = "\<lambda>i j. if rand1_passes (seed + (ny * i + j)) > prob then 0 else (1::int)"
  let ?g = "fill ?val (xrange 1 (nx + 1)) (xrange 1 (ny + 1)) g"
  have e: "initializeGrid g nx ny seed prob = Inr ?g"
    using assms by (rule initializeGrid_wf)
  have w: "wf_grid R C ?g" using assms(1) by (rule wf_fill)
  have r: "\<forall>i \<in> set (xrange 1 (nx + 1)). 0 \<le> i \<and> i < int R"
    "\<forall>j \<in> set (xrange 1 (ny + 1)). 0 \<le> j \<and> j < int C"
    using assms(2,3) by auto
  have c: "cell ?g i j =
             (if 1 \<le> i \<and> i \<le> nx \<and> 1 \<le> j \<and> j \<le> ny
              then (if rand1_passes (seed + (ny * i + j)) \<le> prob then 1 else 0)
              else cell g i j)" if "0 \<le> i" "0 \<le> j" for i j
    by (simp add: cell_fill [OF assms(1) r that] not_less)
  have inside: "\<exists>r. rand1 (seed + (ny * i + j)) = Inr r
                 \<and> cell ?g i j = (if r \<le> prob then 1 else 0)"
    if "i \<in> {1..nx}" "j \<in> {1..ny}" for i j
  proof -
    from that have p: "0 \<le> i" "0 \<le> j" by auto
    from assms(4) that have "modelled_seed prob (seed + (ny * i + j))" by blast
    then have "rand1 (seed + (ny * i + j)) = Inr (rand1_passes (seed + (ny * i + j)))"
      by (simp add: modelled_seed_def rand1_exact)
    with c [OF p] that show ?thesis by simp
  qed
  have outside: "cell ?g i j = cell g i j"
    if "0 \<le> i \<and> 0 \<le> j \<and> \<not> (1 \<le> i \<and> i \<le> nx \<and> 1 \<le> j \<and> j \<le> ny)" for i j
    using that c [of i j] by auto
  have one: "cell ?g i j = 1" if "prob = 1" "i \<in> {1..nx}" "j \<in> {1..ny}" for i j
  proof -
    from that have "0 \<le> i" "0 \<le> j" by auto
    from c [OF this] that rand1_less_1 [of "seed + (ny * i + j)"] show ?thesis by simp
  qed
  have zero: "cell ?g i j = 0"
    if "prob = 0" "i \<in> {1..nx}" "j \<in> {1..ny}"
      "0 < seed + (ny * i + j)" "seed + (ny * i + j) < 2147483647" for i j
  proof -
    from that have "0 \<le> i" "0 \<le> j" by auto
    from c [OF this] that rand1_positive_small [of "seed + (ny * i + j)"] show ?thesis by simp
  qed
  from e w inside outside one zero show ?thesis by blast
qed

theorem initializeGrid_cells_witness:
  "wf_grid 502 502 (replicate 502 (replicate 502 0)) \<and> (3::int) < int 502
   \<and> modelled_seed 1 6 \<and> modelled_seed 1 14
   \<and> (\<exists>g'. initializeGrid (replicate 502 (replicate 502 0)) 3 3 2 1 = Inr g'
          \<and> cell g' 1 1 = 1 \<and> cell g' 3 3 = 1 \<and> cell g' 0 0 = 0 \<and> cell g' 4 1 = 0)"
proof -
  have d: "(3::int) < int 502" by simp
  have m: "\<forall>i \<in> {1..3}. \<forall>j \<in> {1..3}. modelled_seed 1 (2 + (3 * i + j))"
    by (auto intro!: modelled_seed_1 simp: abs_if)
  from initializeGrid_cells [OF zero_grid d d m] obtain g' where
    e: "initializeGrid (replicate 502 (replicate 502 0)) 3 3 2 1 = Inr g'"
    and o: "\<forall>i j. 0 \<le> i \<and> 0 \<le> j \<and> \<not> (1 \<le> i \<and> i \<le> 3 \<and> 1 \<le> j \<and> j \<le> 3)
                 \<longrightarrow> cell g' i j = cell (replicate 502 (replicate 502 0)) i j"
    and a: "(1::real) = 1 \<longrightarrow> (\<forall>i \<in> {1..3}. \<forall>j \<in> {1..3}. cell g' i j = 1)"
    by blast
  from a have "cell g' 1 1 = 1" "cell g' 3 3 = 1" by simp_all
  moreover from o have "cell g' 0 0 = cell (replicate 502 (replicate 502 0)) 0 0"
    "cell g' 4 1 = cell (replicate 502 (replicate 502 0)) 4 1" by simp_all
  then have "cell g' 0 0 = 0" "cell g' 4 1 = 0" by (simp_all add: cell_replicate)
  moreover have "modelled_seed 1 6" "modelled_seed 1 14"
    by (simp_all add: modelled_seed_1)
  ultimately show ?thesis using zero_grid d e by blast
qed

text \<open>
  The claim as it was stated, for probability 0 and every seed, fails where a cell seed is
  0, since \<open>rand1 0 = 0 \<le> 0\<close>: with \<open>seed = -2\<close> and \<open>nx = ny = 1\<close> the cell \<open>(1, 1)\<close> has
  seed 0 and is set to 1.
\<close>

theorem initializeGrid_zero_seed_cell:
  "initializeGrid (replicate 502 (replicate 502 0)) 1 1 (- 2) 0
     = Inr (upd (replicate 502 (replicate 502 0)) 1 1 1)
   \<and> cell (upd (replicate 502 (replicate 502 0)) 1 1 1) 1 1 = 1"
proof -
  have x: "xrange 1 2 = [1]" by (simp add: xrange_def upto_rec1)
  have s: "set2 (replicate 502 (replicate 502 0)) 1 1 1 = Inr (upd (replicate 502 (replicate 502 0)) 1 1 1)"
    using zero_grid by (rule set2_wf) simp_all
  show ?thesis
    by (simp add: initializeGrid_def x rand1_def rand1_0 float_gt_def s cell_one_cell)
qed




end
